theory Spec2Isabelle
  imports Complex_Main
begin

section \<open>Numbers\<close>

text \<open>
  A JavaScript number is an IEEE 754 double: a finite value, written here as the real it
  denotes, one of the two infinities, or \<open>NaN\<close>. The two zeros are one value,
  \<open>Fin 0\<close>. The sign of a zero shows only when something is divided by it, and
  \<open>js_divide\<close> divides by \<open>+0\<close>: of the divisors in the theorems below only a
  magnitude can be zero, and the square root of a sum of squares is never \<open>-0\<close>.
\<close>

datatype jsnum = Fin real | PosInf | NegInf | NaN

text \<open>
  An arithmetic operation on finite numbers computes the exact result and rounds it to the
  nearest double, a tie going to the even significand (\<open>round64\<close>). A double is an
  integer multiple of its unit in the last place, \<open>2 powi (e - 52)\<close> for the binary
  exponent \<open>e\<close> of the value, which is never below \<open>-1022\<close>: below it the
  numbers are subnormal and the unit stays \<open>2 powi (-1074)\<close>. A result that rounds to
  \<open>2 ^ 1024\<close> or more is an infinity.
\<close>

definition round_half_even :: "real \<Rightarrow> int" where
  "round_half_even q =
    (let f = \<lfloor>q\<rfloor>; d = q - of_int f
     in if d < 1 / 2 then f else if 1 / 2 < d then f + 1 else if even f then f else f + 1)"

definition exponent64 :: "real \<Rightarrow> int" where
  "exponent64 v = max \<lfloor>log 2 v\<rfloor> (- 1022)"

definition ulp64 :: "real \<Rightarrow> real" where
  "ulp64 v = 2 powi (exponent64 v - 52)"

definition round_magnitude :: "real \<Rightarrow> real" where
  "round_magnitude v = of_int (round_half_even (v / ulp64 v)) * ulp64 v"

definition round64 :: "real \<Rightarrow> jsnum" where
  "round64 x =
    (if x = 0 then Fin 0
     else if 0 < x
     then (let r = round_magnitude x in if 2 ^ 1024 \<le> r then PosInf else Fin r)
     else (let r = round_magnitude (- x) in if 2 ^ 1024 \<le> r then NegInf else Fin (- r)))"

text \<open>
  The operators of the source: \<open>+\<close>, \<open>-\<close>, \<open>*\<close>, \<open>/\<close>, \<open>Math.sqrt\<close>
  (rounded correctly, as the hardware instruction is), \<open><\<close>, \<open><=\<close>, \<open>Math.max\<close>,
  \<open>Math.min\<close> and the test \<open>!x\<close>. An undefined form (\<open>0 * Infinity\<close>,
  \<open>Infinity - Infinity\<close>, \<open>0 / 0\<close>, \<open>Infinity / Infinity\<close>, the root of a negative
  number) is \<open>NaN\<close>; \<open>NaN\<close> is absorbing and makes every comparison false.
  \<open>a > b\<close> is \<open>js_less b a\<close> and \<open>a >= b\<close> is \<open>js_less_eq b a\<close>.
\<close>

fun js_neg :: "jsnum \<Rightarrow> jsnum" where
  "js_neg (Fin a) = Fin (- a)"
| "js_neg PosInf = NegInf"
| "js_neg NegInf = PosInf"
| "js_neg NaN = NaN"

fun js_plus :: "jsnum \<Rightarrow> jsnum \<Rightarrow> jsnum" where
  "js_plus (Fin a) (Fin b) = round64 (a + b)"
| "js_plus NaN _ = NaN"
| "js_plus _ NaN = NaN"
| "js_plus PosInf NegInf = NaN"
| "js_plus NegInf PosInf = NaN"
| "js_plus PosInf _ = PosInf"
| "js_plus _ PosInf = PosInf"
| "js_plus NegInf _ = NegInf"
| "js_plus _ NegInf = NegInf"

definition js_minus :: "jsnum \<Rightarrow> jsnum \<Rightarrow> jsnum" where
  "js_minus a b = js_plus a (js_neg b)"

fun js_times :: "jsnum \<Rightarrow> jsnum \<Rightarrow> jsnum" where
  "js_times (Fin a) (Fin b) = round64 (a * b)"
| "js_times NaN _ = NaN"
| "js_times _ NaN = NaN"
| "js_times (Fin a) PosInf = (if a = 0 then NaN else if 0 < a then PosInf else NegInf)"
| "js_times (Fin a) NegInf = (if a = 0 then NaN else if 0 < a then NegInf else PosInf)"
| "js_times PosInf (Fin b) = (if b = 0 then NaN else if 0 < b then PosInf else NegInf)"
| "js_times NegInf (Fin b) = (if b = 0 then NaN else if 0 < b then NegInf else PosInf)"
| "js_times PosInf PosInf = PosInf"
| "js_times PosInf NegInf = NegInf"
| "js_times NegInf PosInf = NegInf"
| "js_times NegInf NegInf = PosInf"

fun js_divide :: "jsnum \<Rightarrow> jsnum \<Rightarrow> jsnum" where
  "js_divide (Fin a) (Fin b) =
     (if b = 0 then (if a = 0 then NaN else if 0 < a then PosInf else NegInf)
      else round64 (a / b))"
| "js_divide NaN _ = NaN"
| "js_divide _ NaN = NaN"
| "js_divide (Fin a) PosInf = Fin 0"
| "js_divide (Fin a) NegInf = Fin 0"
| "js_divide PosInf (Fin b) = (if 0 \<le> b then PosInf else NegInf)"
| "js_divide NegInf (Fin b) = (if 0 \<le> b then NegInf else PosInf)"
| "js_divide PosInf PosInf = NaN"
| "js_divide PosInf NegInf = NaN"
| "js_divide NegInf PosInf = NaN"
| "js_divide NegInf NegInf = NaN"


fun js_less :: "jsnum \<Rightarrow> jsnum \<Rightarrow> bool" where
  "js_less (Fin a) (Fin b) = (a < b)"
| "js_less NaN _ = False"
| "js_less _ NaN = False"
| "js_less _ NegInf = False"
| "js_less PosInf _ = False"
| "js_less NegInf _ = True"
| "js_less _ PosInf = True"

fun js_less_eq :: "jsnum \<Rightarrow> jsnum \<Rightarrow> bool" where
  "js_less_eq (Fin a) (Fin b) = (a \<le> b)"
| "js_less_eq NaN _ = False"
| "js_less_eq _ NaN = False"
| "js_less_eq NegInf _ = True"
| "js_less_eq _ PosInf = True"
| "js_less_eq _ NegInf = False"
| "js_less_eq PosInf _ = False"

definition js_max :: "jsnum \<Rightarrow> jsnum \<Rightarrow> jsnum" where
  "js_max a b = (if a = NaN \<or> b = NaN then NaN else if js_less a b then b else a)"

definition js_min :: "jsnum \<Rightarrow> jsnum \<Rightarrow> jsnum" where
  "js_min a b = (if a = NaN \<or> b = NaN then NaN else if js_less b a then b else a)"

definition js_falsy :: "jsnum \<Rightarrow> bool" where
  "js_falsy a = (a = Fin 0 \<or> a = NaN)"

fun is_finite :: "jsnum \<Rightarrow> bool" where
  "is_finite (Fin a) = True"
| "is_finite _ = False"

text \<open>A finite number is a double when rounding leaves it as it is.\<close>

fun is_double :: "jsnum \<Rightarrow> bool" where
  "is_double (Fin a) = (round64 a = Fin a)"
| "is_double _ = True"

text \<open>
  Modelled from the spec: \<open>XMath.isNumber\<close> of \<open>math.js\<close>, which is not among the
  sources. An optional argument is \<open>None\<close> when the caller left it out; the specification
  says of every \<open>scale(sx, sy?)\<close> that \<open>sy\<close> defaults to \<open>sx\<close> when omitted.
\<close>

definition isNumber :: "'a option \<Rightarrow> bool" where
  "isNumber v = (v \<noteq> None)"

section \<open>Data model\<close>

text \<open>
  \<open>var Rect = function(x, y, w, h)\<close>: left, top, width, height. The rectangle comes
  twice. \<open>Rect\<close> has real fields and its operations add and subtract exactly; on it
  are proved which object a function overwrites or allocates and how the tests of the
  source relate. \<open>Rect64\<close> has the numbers of JavaScript as fields and its operations
  round; on it are proved the properties of the numbers computed.
\<close>

record Rect =
  left :: real
  top :: real
  width :: real
  height :: real

record Rect64 =
  left :: jsnum
  top :: jsnum
  width :: jsnum
  height :: jsnum

text \<open>\<open>var Box = function(top, right, bottom, left)\<close>.\<close>

record Box =
  top :: jsnum
  right :: jsnum
  bottom :: jsnum
  left :: jsnum

text \<open>\<open>var Size = function(width, height)\<close>.\<close>

record Size =
  width :: jsnum
  height :: jsnum


definition new_Rect :: "real \<Rightarrow> real \<Rightarrow> real \<Rightarrow> real \<Rightarrow> Rect" where
  "new_Rect x y w h = \<lparr>Rect.left = x, Rect.top = y, Rect.width = w, Rect.height = h\<rparr>"

definition new_Rect64 :: "jsnum \<Rightarrow> jsnum \<Rightarrow> jsnum \<Rightarrow> jsnum \<Rightarrow> Rect64" where
  "new_Rect64 x y w h = \<lparr>Rect64.left = x, Rect64.top = y, Rect64.width = w, Rect64.height = h\<rparr>"

definition new_Box :: "jsnum \<Rightarrow> jsnum \<Rightarrow> jsnum \<Rightarrow> jsnum \<Rightarrow> Box" where
  "new_Box t r b l = \<lparr>Box.top = t, Box.right = r, Box.bottom = b, Box.left = l\<rparr>"

definition new_Size :: "jsnum \<Rightarrow> jsnum \<Rightarrow> Size" where
  "new_Size w h = \<lparr>Size.width = w, Size.height = h\<rparr>"

section \<open>Rect: the operations on values, in exact arithmetic\<close>

text \<open>
  The functions of this section compute with real field values. Which object is allocated
  or overwritten is the subject of the next section, where the same source functions are
  embedded over references into a store.
\<close>

text \<open>\<open>Rect.prototype.clone\<close>\<close>

definition clone :: "Rect \<Rightarrow> Rect" where
  "clone this = new_Rect (Rect.left this) (Rect.top this) (Rect.width this) (Rect.height this)"

text \<open>\<open>Rect.intersection\<close> (static): \<open>null\<close> is \<open>None\<close>.\<close>

definition intersection :: "Rect \<Rightarrow> Rect \<Rightarrow> Rect option" where
  "intersection a b =
    (let x0 = max (Rect.left a) (Rect.left b);
         x1 = min (Rect.left a + Rect.width a) (Rect.left b + Rect.width b)
     in if x0 \<le> x1
        then (let y0 = max (Rect.top a) (Rect.top b);
                  y1 = min (Rect.top a + Rect.height a) (Rect.top b + Rect.height b)
              in if y0 \<le> y1 then Some (new_Rect x0 y0 (x1 - x0) (y1 - y0)) else None)
        else None)"

text \<open>\<open>Rect.intersects\<close>\<close>

definition intersects :: "Rect \<Rightarrow> Rect \<Rightarrow> bool" where
  "intersects a b =
    (Rect.left a \<le> Rect.left b + Rect.width b \<and> Rect.left b \<le> Rect.left a + Rect.width a \<and>
     Rect.top a \<le> Rect.top b + Rect.height b \<and> Rect.top b \<le> Rect.top a + Rect.height a)"

text \<open>
  \<open>Rect.difference\<close>. The local variables \<open>result\<close>, \<open>top\<close> and \<open>height\<close> of the
  source are assigned in sequence; each guarded block yields their values after it.
  \<open>!intersection.height\<close> on a real is \<open>height = 0\<close>.
\<close>

definition difference :: "Rect \<Rightarrow> Rect \<Rightarrow> Rect list" where
  "difference a b =
    (case intersection a b of
       None \<Rightarrow> [clone a]
     | Some i \<Rightarrow>
         if Rect.height i = 0 \<or> Rect.width i = 0 then [clone a]
         else
           (let result = [];
                top' = Rect.top a;
                height' = Rect.height a;
                ar = Rect.left a + Rect.width a;
                ab = Rect.top a + Rect.height a;
                br = Rect.left b + Rect.width b;
                bb = Rect.top b + Rect.height b;
                (result, top', height') =
                  (if Rect.top b > Rect.top a
                   then (result @ [new_Rect (Rect.left a) (Rect.top a) (Rect.width a)
                                     (Rect.top b - Rect.top a)],
                         Rect.top b,
                         height' - (Rect.top b - Rect.top a))
                   else (result, top', height'));
                (result, height') =
                  (if bb < ab
                   then (result @ [new_Rect (Rect.left a) bb (Rect.width a) (ab - bb)],
                         bb - top')
                   else (result, height'));
                result =
                  (if Rect.left b > Rect.left a
                   then result @ [new_Rect (Rect.left a) top' (Rect.left b - Rect.left a) height']
                   else result);
                result =
                  (if br < ar
                   then result @ [new_Rect br top' (ar - br) height']
                   else result)
            in result))"

section \<open>Rect: the operations on objects\<close>

text \<open>
  A rectangle object lives in a store, at a reference. \<open>new Rect(...)\<close> takes the next
  free reference; nothing is ever freed. A reference given to a function is that of an
  allocated object (\<open>r < length s\<close>). Every function takes the store last and returns its
  result with the store after the call. A field is read in the store of the moment.
\<close>

type_synonym ref = nat

type_synonym store = "Rect list"

definition alloc_Rect :: "real \<Rightarrow> real \<Rightarrow> real \<Rightarrow> real \<Rightarrow> store \<Rightarrow> ref \<times> store" where
  "alloc_Rect x y w h s = (length s, s @ [new_Rect x y w h])"

text \<open>\<open>Rect.prototype.clone\<close>\<close>

definition clone_obj :: "ref \<Rightarrow> store \<Rightarrow> ref \<times> store" where
  "clone_obj this s =
    alloc_Rect (Rect.left (s ! this)) (Rect.top (s ! this))
      (Rect.width (s ! this)) (Rect.height (s ! this)) s"

text \<open>\<open>Rect.prototype.intersection\<close>: the four assignments to \<open>this\<close>, one after the other.\<close>

definition prototype_intersection_obj :: "ref \<Rightarrow> ref \<Rightarrow> store \<Rightarrow> bool \<times> store" where
  "prototype_intersection_obj this rect s =
    (let x0 = max (Rect.left (s ! this)) (Rect.left (s ! rect));
         x1 = min (Rect.left (s ! this) + Rect.width (s ! this))
                  (Rect.left (s ! rect) + Rect.width (s ! rect))
     in if x0 \<le> x1
        then (let y0 = max (Rect.top (s ! this)) (Rect.top (s ! rect));
                  y1 = min (Rect.top (s ! this) + Rect.height (s ! this))
                           (Rect.top (s ! rect) + Rect.height (s ! rect))
              in if y0 \<le> y1
                 then (let s = s[this := (s ! this)\<lparr>Rect.left := x0\<rparr>];
                           s = s[this := (s ! this)\<lparr>Rect.top := y0\<rparr>];
                           s = s[this := (s ! this)\<lparr>Rect.width := x1 - x0\<rparr>];
                           s = s[this := (s ! this)\<lparr>Rect.height := y1 - y0\<rparr>]
                       in (True, s))
                 else (False, s))
        else (False, s))"

text \<open>\<open>Rect.intersection\<close> (static)\<close>

definition intersection_obj :: "ref \<Rightarrow> ref \<Rightarrow> store \<Rightarrow> ref option \<times> store" where
  "intersection_obj a b s =
    (let x0 = max (Rect.left (s ! a)) (Rect.left (s ! b));
         x1 = min (Rect.left (s ! a) + Rect.width (s ! a)) (Rect.left (s ! b) + Rect.width (s ! b))
     in if x0 \<le> x1
        then (let y0 = max (Rect.top (s ! a)) (Rect.top (s ! b));
                  y1 = min (Rect.top (s ! a) + Rect.height (s ! a))
                           (Rect.top (s ! b) + Rect.height (s ! b))
              in if y0 \<le> y1
                 then (let (r, s) = alloc_Rect x0 y0 (x1 - x0) (y1 - y0) s in (Some r, s))
                 else (None, s))
        else (None, s))"

text \<open>\<open>Rect.difference\<close>; the array \<open>result\<close> is the list of the references pushed.\<close>

definition difference_obj :: "ref \<Rightarrow> ref \<Rightarrow> store \<Rightarrow> ref list \<times> store" where
  "difference_obj a b s =
    (let (intersection', s) = intersection_obj a b s
     in if (case intersection' of
              None \<Rightarrow> True
            | Some i \<Rightarrow> Rect.height (s ! i) = 0 \<or> Rect.width (s ! i) = 0)
        then (let (c, s) = clone_obj a s in ([c], s))
        else
          (let result = [];
               top' = Rect.top (s ! a);
               height' = Rect.height (s ! a);
               ar = Rect.left (s ! a) + Rect.width (s ! a);
               ab = Rect.top (s ! a) + Rect.height (s ! a);
               br = Rect.left (s ! b) + Rect.width (s ! b);
               bb = Rect.top (s ! b) + Rect.height (s ! b);
               (result, top', height', s) =
                 (if Rect.top (s ! b) > Rect.top (s ! a)
                  then (let (r, s) = alloc_Rect (Rect.left (s ! a)) (Rect.top (s ! a))
                                       (Rect.width (s ! a)) (Rect.top (s ! b) - Rect.top (s ! a)) s
                        in (result @ [r], Rect.top (s ! b),
                            height' - (Rect.top (s ! b) - Rect.top (s ! a)), s))
                  else (result, top', height', s));
               (result, height', s) =
                 (if bb < ab
                  then (let (r, s) = alloc_Rect (Rect.left (s ! a)) bb (Rect.width (s ! a))
                                       (ab - bb) s
                        in (result @ [r], bb - top', s))
                  else (result, height', s));
               (result, s) =
                 (if Rect.left (s ! b) > Rect.left (s ! a)
                  then (let (r, s) = alloc_Rect (Rect.left (s ! a)) top'
                                       (Rect.left (s ! b) - Rect.left (s ! a)) height' s
                        in (result @ [r], s))
                  else (result, s));
               (result, s) =
                 (if br < ar
                  then (let (r, s) = alloc_Rect br top' (ar - br) height' s in (result @ [r], s))
                  else (result, s))
           in (result, s)))"

text \<open>\<open>Rect.prototype.difference\<close>\<close>

definition prototype_difference_obj :: "ref \<Rightarrow> ref \<Rightarrow> store \<Rightarrow> ref list \<times> store" where
  "prototype_difference_obj this rect s = difference_obj this rect s"

section \<open>Rect: the operations on values, in double arithmetic\<close>

text \<open>
  The same functions with the numbers of JavaScript: every sum, difference and product is
  rounded, and \<open>!intersection.height\<close> holds of \<open>0\<close> and of \<open>NaN\<close>.
\<close>

text \<open>\<open>Rect.prototype.clone\<close>\<close>

definition clone64 :: "Rect64 \<Rightarrow> Rect64" where
  "clone64 this =
    new_Rect64 (Rect64.left this) (Rect64.top this) (Rect64.width this) (Rect64.height this)"

text \<open>\<open>Rect.prototype.toBox\<close>\<close>

definition toBox :: "Rect64 \<Rightarrow> Box" where
  "toBox this =
    (let right' = js_plus (Rect64.left this) (Rect64.width this);
         bottom' = js_plus (Rect64.top this) (Rect64.height this)
     in new_Box (Rect64.top this) right' bottom' (Rect64.left this))"

text \<open>\<open>Rect.createFromBox\<close>\<close>

definition createFromBox :: "Box \<Rightarrow> Rect64" where
  "createFromBox box =
    new_Rect64 (Box.left box) (Box.top box)
      (js_minus (Box.right box) (Box.left box)) (js_minus (Box.bottom box) (Box.top box))"

text \<open>\<open>Rect.intersection\<close> (static)\<close>

definition intersection64 :: "Rect64 \<Rightarrow> Rect64 \<Rightarrow> Rect64 option" where
  "intersection64 a b =
    (let x0 = js_max (Rect64.left a) (Rect64.left b);
         x1 = js_min (js_plus (Rect64.left a) (Rect64.width a))
                     (js_plus (Rect64.left b) (Rect64.width b))
     in if js_less_eq x0 x1
        then (let y0 = js_max (Rect64.top a) (Rect64.top b);
                  y1 = js_min (js_plus (Rect64.top a) (Rect64.height a))
                              (js_plus (Rect64.top b) (Rect64.height b))
              in if js_less_eq y0 y1
                 then Some (new_Rect64 x0 y0 (js_minus x1 x0) (js_minus y1 y0))
                 else None)
        else None)"

text \<open>\<open>Rect.intersects\<close>\<close>

definition intersects64 :: "Rect64 \<Rightarrow> Rect64 \<Rightarrow> bool" where
  "intersects64 a b =
    (js_less_eq (Rect64.left a) (js_plus (Rect64.left b) (Rect64.width b)) \<and>
     js_less_eq (Rect64.left b) (js_plus (Rect64.left a) (Rect64.width a)) \<and>
     js_less_eq (Rect64.top a) (js_plus (Rect64.top b) (Rect64.height b)) \<and>
     js_less_eq (Rect64.top b) (js_plus (Rect64.top a) (Rect64.height a)))"

text \<open>\<open>Rect.prototype.area\<close>\<close>

definition area :: "Rect64 \<Rightarrow> jsnum" where
  "area this = js_times (Rect64.width this) (Rect64.height this)"

text \<open>\<open>Rect.difference\<close>\<close>

definition difference64 :: "Rect64 \<Rightarrow> Rect64 \<Rightarrow> Rect64 list" where
  "difference64 a b =
    (case intersection64 a b of
       None \<Rightarrow> [clone64 a]
     | Some i \<Rightarrow>
         if js_falsy (Rect64.height i) \<or> js_falsy (Rect64.width i) then [clone64 a]
         else
           (let result = [];
                top' = Rect64.top a;
                height' = Rect64.height a;
                ar = js_plus (Rect64.left a) (Rect64.width a);
                ab = js_plus (Rect64.top a) (Rect64.height a);
                br = js_plus (Rect64.left b) (Rect64.width b);
                bb = js_plus (Rect64.top b) (Rect64.height b);
                (result, top', height') =
                  (if js_less (Rect64.top a) (Rect64.top b)
                   then (result @ [new_Rect64 (Rect64.left a) (Rect64.top a) (Rect64.width a)
                                     (js_minus (Rect64.top b) (Rect64.top a))],
                         Rect64.top b,
                         js_minus height' (js_minus (Rect64.top b) (Rect64.top a)))
                   else (result, top', height'));
                (result, height') =
                  (if js_less bb ab
                   then (result @ [new_Rect64 (Rect64.left a) bb (Rect64.width a)
                                     (js_minus ab bb)],
                         js_minus bb top')
                   else (result, height'));
                result =
                  (if js_less (Rect64.left a) (Rect64.left b)
                   then result @ [new_Rect64 (Rect64.left a) top'
                                    (js_minus (Rect64.left b) (Rect64.left a)) height']
                   else result);
                result =
                  (if js_less br ar
                   then result @ [new_Rect64 br top' (js_minus ar br) height']
                   else result)
            in result))"

section \<open>Size\<close>

text \<open>\<open>Size.prototype.aspectRatio\<close>\<close>

definition aspectRatio :: "Size \<Rightarrow> jsnum" where
  "aspectRatio this = js_divide (Size.width this) (Size.height this)"

text \<open>\<open>Size.prototype.scale\<close>: it overwrites the receiver and returns it.\<close>

definition Size_scale :: "jsnum \<Rightarrow> jsnum option \<Rightarrow> Size \<Rightarrow> Size" where
  "Size_scale sx opt_sy this =
    (let sy = (if isNumber opt_sy then the opt_sy else sx);
         this = this\<lparr>Size.width := js_times (Size.width this) sx\<rparr>;
         this = this\<lparr>Size.height := js_times (Size.height this) sy\<rparr>
     in this)"

text \<open>\<open>Size.prototype.scaleToFit\<close>\<close>

definition scaleToFit :: "Size \<Rightarrow> Size \<Rightarrow> Size" where
  "scaleToFit this target =
    (let s = (if js_less (aspectRatio target) (aspectRatio this)
              then js_divide (Size.width target) (Size.width this)
              else js_divide (Size.height target) (Size.height this))
     in Size_scale s None this)"

section \<open>Box\<close>






section \<open>Coordinate\<close>




section \<open>Notions of the specification\<close>

text \<open>
  Two rectangles overlap when they share more than boundary: their intersection exists and
  has neither width nor height zero. It is the test \<open>Rect.difference\<close> itself applies to
  its two arguments. In exact arithmetic:
\<close>

definition overlap :: "Rect \<Rightarrow> Rect \<Rightarrow> bool" where
  "overlap r r' =
    (case intersection r r' of
       None \<Rightarrow> False
     | Some i \<Rightarrow> Rect.height i \<noteq> 0 \<and> Rect.width i \<noteq> 0)"

text \<open>A point lies strictly inside a rectangle: on neither of its four sides.\<close>

definition strictly_inside :: "Rect \<Rightarrow> real \<times> real \<Rightarrow> bool" where
  "strictly_inside r p =
    (Rect.left r < fst p \<and> fst p < Rect.left r + Rect.width r \<and>
     Rect.top r < snd p \<and> snd p < Rect.top r + Rect.height r)"

fun non_overlapping :: "Rect list \<Rightarrow> bool" where
  "non_overlapping [] = True"
| "non_overlapping (r # rs) = ((\<forall>r' \<in> set rs. \<not> overlap r r') \<and> non_overlapping rs)"

text \<open>And with the intersection the source computes in double arithmetic:\<close>

definition overlap64 :: "Rect64 \<Rightarrow> Rect64 \<Rightarrow> bool" where
  "overlap64 r r' =
    (case intersection64 r r' of
       None \<Rightarrow> False
     | Some i \<Rightarrow> \<not> js_falsy (Rect64.height i) \<and> \<not> js_falsy (Rect64.width i))"

fun non_overlapping64 :: "Rect64 list \<Rightarrow> bool" where
  "non_overlapping64 [] = True"
| "non_overlapping64 (r # rs) = ((\<forall>r' \<in> set rs. \<not> overlap64 r r') \<and> non_overlapping64 rs)"

text \<open>
  The bands of \<open>a\<close> around \<open>b\<close> as the specification lists them, in the order top, bottom,
  left, right. The top and bottom bands have the full width of \<open>a\<close>. The left and right
  bands have the vertical extent that is left between them: from the lower of the two tops
  to the upper of the two bottoms.
\<close>

definition bands_top_bottom_left_right :: "Rect \<Rightarrow> Rect \<Rightarrow> Rect list" where
  "bands_top_bottom_left_right a b =
    (let a_right = Rect.left a + Rect.width a;
         a_bottom = Rect.top a + Rect.height a;
         b_right = Rect.left b + Rect.width b;
         b_bottom = Rect.top b + Rect.height b;
         shrunk_top = max (Rect.top a) (Rect.top b);
         shrunk_height = min a_bottom b_bottom - shrunk_top
     in (if Rect.top b > Rect.top a
         then [new_Rect (Rect.left a) (Rect.top a) (Rect.width a) (Rect.top b - Rect.top a)]
         else []) @
        (if b_bottom < a_bottom
         then [new_Rect (Rect.left a) b_bottom (Rect.width a) (a_bottom - b_bottom)]
         else []) @
        (if Rect.left b > Rect.left a
         then [new_Rect (Rect.left a) shrunk_top (Rect.left b - Rect.left a) shrunk_height]
         else []) @
        (if b_right < a_right
         then [new_Rect b_right shrunk_top (a_right - b_right) shrunk_height]
         else []))"

text \<open>
  The area of a rectangle as a real number, the product not rounded; and the areas of a list
  of rectangles added up the way JavaScript adds them, from \<open>0\<close> and from the left.
\<close>

definition exact_area :: "Rect \<Rightarrow> real" where
  "exact_area this = Rect.width this * Rect.height this"

definition total_area :: "Rect64 list \<Rightarrow> jsnum" where
  "total_area rs = foldl js_plus (Fin 0) (map area rs)"

text \<open>
  The rectangle of JavaScript that has given reals as its fields, and the rectangles whose
  fields are integers of magnitude at most \<open>K\<close>. For \<open>K\<close> up to \<open>2 ^ 20\<close> every number
  \<open>Rect.difference\<close> and the areas of its results involve is an integer below
  \<open>2 ^ 53\<close>, which no operation rounds.
\<close>

definition exact :: "Rect \<Rightarrow> Rect64" where
  "exact r = new_Rect64 (Fin (Rect.left r)) (Fin (Rect.top r)) (Fin (Rect.width r)) (Fin (Rect.height r))"

definition integers_within :: "real \<Rightarrow> Rect \<Rightarrow> bool" where
  "integers_within K r =
    (Rect.left r \<in> \<int> \<and> - K \<le> Rect.left r \<and> Rect.left r \<le> K \<and>
     Rect.top r \<in> \<int> \<and> - K \<le> Rect.top r \<and> Rect.top r \<le> K \<and>
     Rect.width r \<in> \<int> \<and> - K \<le> Rect.width r \<and> Rect.width r \<le> K \<and>
     Rect.height r \<in> \<int> \<and> - K \<le> Rect.height r \<and> Rect.height r \<le> K)"

section \<open>Rect: intersection and the intersection test\<close>

lemma intersection_None_iff:
  "intersection a b = None \<longleftrightarrow>
     \<not> (max (Rect.left a) (Rect.left b) \<le> min (Rect.left a + Rect.width a) (Rect.left b + Rect.width b) \<and>
        max (Rect.top a) (Rect.top b) \<le> min (Rect.top a + Rect.height a) (Rect.top b + Rect.height b))"
  by (auto simp add: intersection_def Let_def)

lemma intersection_Some_intersects:
  "intersection a b = Some i \<Longrightarrow> intersects a b"
  by (auto simp add: intersection_def intersects_def Let_def split: if_splits)

text \<open>
  C2. Claimed: for all rectangles, with no condition on the signs of the widths and heights,
  \<open>Rect.intersection(a,b)\<close> is \<open>null\<close> if and only if \<open>Rect.intersects(a,b)\<close> is false.
  This fails when an extent is negative: \<open>a = Rect(0,0,-1,0)\<close> and \<open>b = Rect(-5,0,10,0)\<close>
  pass the four comparisons of \<open>intersects\<close>, while \<open>x0 = 0 > x1 = -1\<close> makes
  \<open>intersection\<close> return \<open>null\<close>.
\<close>

theorem C2_counterexample:
  "intersection (new_Rect 0 0 (-1) 0) (new_Rect (-5) 0 10 0) = None \<and>
   intersects (new_Rect 0 0 (-1) 0) (new_Rect (-5) 0 10 0)"
  by (simp add: intersection_def intersects_def new_Rect_def)

text \<open>
  C2, amended. For all rectangles \<open>a\<close> and \<open>b\<close> whose widths and heights are non-negative,
  \<open>Rect.intersection(a,b)\<close> is \<open>null\<close> if and only if \<open>Rect.intersects(a,b)\<close> is false.
\<close>

theorem C2_intersection_null_iff_not_intersects:
  assumes "0 \<le> Rect.width a" and "0 \<le> Rect.height a" and "0 \<le> Rect.width b" and "0 \<le> Rect.height b"
  shows "intersection a b = None \<longleftrightarrow> \<not> intersects a b"
  using assms by (auto simp add: intersection_None_iff intersects_def)

theorem C2_witness:
  "(0::real) \<le> Rect.width (new_Rect 0 0 10 10) \<and> 0 \<le> Rect.height (new_Rect 5 5 10 10) \<and>
   intersection (new_Rect 0 0 10 10) (new_Rect 5 5 10 10) \<noteq> None \<and>
   intersects (new_Rect 0 0 10 10) (new_Rect 5 5 10 10) \<and>
   intersection (new_Rect 0 0 1 1) (new_Rect 5 5 1 1) = None \<and>
   \<not> intersects (new_Rect 0 0 1 1) (new_Rect 5 5 1 1)"
proof -
  have p: "intersects (new_Rect 0 0 10 10) (new_Rect 5 5 10 10)"
    and n: "\<not> intersects (new_Rect 0 0 1 1) (new_Rect 5 5 1 1)"
    by (simp_all add: intersects_def new_Rect_def)
  have "intersection (new_Rect 0 0 10 10) (new_Rect 5 5 10 10) \<noteq> None"
    using p C2_intersection_null_iff_not_intersects [of "new_Rect 0 0 10 10" "new_Rect 5 5 10 10"]
    by (simp add: new_Rect_def)
  moreover have "intersection (new_Rect 0 0 1 1) (new_Rect 5 5 1 1) = None"
    using n C2_intersection_null_iff_not_intersects [of "new_Rect 0 0 1 1" "new_Rect 5 5 1 1"]
    by (simp add: new_Rect_def)
  ultimately show ?thesis using p n by (simp add: new_Rect_def)
qed

section \<open>Rect: the difference of two rectangles, in exact arithmetic\<close>

lemma intersection_SomeD:
  assumes "intersection a b = Some i"
  shows "Rect.left i = max (Rect.left a) (Rect.left b)"
    and "Rect.top i = max (Rect.top a) (Rect.top b)"
    and "Rect.width i =
           min (Rect.left a + Rect.width a) (Rect.left b + Rect.width b) -
           max (Rect.left a) (Rect.left b)"
    and "Rect.height i =
           min (Rect.top a + Rect.height a) (Rect.top b + Rect.height b) -
           max (Rect.top a) (Rect.top b)"
    and "0 \<le> Rect.width i" and "0 \<le> Rect.height i"
  using assms by (auto simp add: intersection_def Let_def new_Rect_def split: if_splits)

lemma clone_id: "clone r = r"
  by (simp add: clone_def new_Rect_def)

lemma difference_no_overlap:
  assumes "case intersection a b of None \<Rightarrow> True
           | Some i \<Rightarrow> Rect.height i = 0 \<or> Rect.width i = 0"
  shows "difference a b = [clone a]"
  using assms by (auto simp add: difference_def split: option.splits)

lemma difference_bands:
  assumes "intersection a b = Some i" and "Rect.height i \<noteq> 0" and "Rect.width i \<noteq> 0"
  shows "difference a b = bands_top_bottom_left_right a b"
  using assms intersection_SomeD[OF assms(1)]
  by (auto simp add: difference_def bands_top_bottom_left_right_def Let_def new_Rect_def)

lemma bands_area:
  assumes "intersection a b = Some i"
  shows "sum_list (map exact_area (bands_top_bottom_left_right a b)) + exact_area i = exact_area a"
proof -
  note d = intersection_SomeD[OF assms(1)]
  define vt where "vt = (if Rect.top b > Rect.top a then Rect.top b - Rect.top a else 0)"
  define vb where "vb = (if Rect.top b + Rect.height b < Rect.top a + Rect.height a
                         then Rect.top a + Rect.height a - (Rect.top b + Rect.height b) else 0)"
  define hl where "hl = (if Rect.left b > Rect.left a then Rect.left b - Rect.left a else 0)"
  define hr where "hr = (if Rect.left b + Rect.width b < Rect.left a + Rect.width a
                         then Rect.left a + Rect.width a - (Rect.left b + Rect.width b) else 0)"
  have v: "vt + vb = Rect.height a - Rect.height i"
    unfolding vt_def vb_def d(4) by (simp add: max_def min_def)
  have h: "hl + hr = Rect.width a - Rect.width i"
    unfolding hl_def hr_def d(3) by (simp add: max_def min_def)
  have "sum_list (map exact_area (bands_top_bottom_left_right a b)) =
          Rect.width a * vt + Rect.width a * vb + hl * Rect.height i + hr * Rect.height i"
    by (simp add: bands_top_bottom_left_right_def exact_area_def new_Rect_def Let_def
        vt_def vb_def hl_def hr_def d(4))
  also have "\<dots> = Rect.width a * (vt + vb) + (hl + hr) * Rect.height i"
    by (simp add: algebra_simps)
  also have "\<dots> = Rect.width a * Rect.height a - Rect.width i * Rect.height i"
    unfolding v h by (simp add: algebra_simps)
  finally show ?thesis by (simp add: exact_area_def)
qed

lemma bands_non_overlapping:
  assumes "intersection a b = Some i" and "Rect.height i \<noteq> 0" and "Rect.width i \<noteq> 0"
  shows "non_overlapping (bands_top_bottom_left_right a b)"
  using assms intersection_SomeD[OF assms(1)]
  by (auto simp add: bands_top_bottom_left_right_def overlap_def intersection_def
      new_Rect_def Let_def)

lemma intersects_intersection:
  assumes "intersects a b"
    and "0 \<le> Rect.width a" and "0 \<le> Rect.height a"
    and "0 \<le> Rect.width b" and "0 \<le> Rect.height b"
  shows "\<exists>i. intersection a b = Some i"
  using assms by (auto simp add: intersection_def intersects_def Let_def)

text \<open>
  Overlapping, as defined from \<open>Rect.intersection\<close>, is having a point in common that
  lies strictly inside both rectangles.
\<close>

lemma overlap_iff_common_inner_point:
  "overlap r r' \<longleftrightarrow> (\<exists>p. strictly_inside r p \<and> strictly_inside r' p)"
proof
  assume "overlap r r'"
  then obtain i where i: "intersection r r' = Some i"
    and nz: "Rect.height i \<noteq> 0" "Rect.width i \<noteq> 0"
    by (auto simp add: overlap_def split: option.splits)
  define x0 where "x0 = max (Rect.left r) (Rect.left r')"
  define x1 where "x1 = min (Rect.left r + Rect.width r) (Rect.left r' + Rect.width r')"
  define y0 where "y0 = max (Rect.top r) (Rect.top r')"
  define y1 where "y1 = min (Rect.top r + Rect.height r) (Rect.top r' + Rect.height r')"
  from i nz have "x0 < x1" "y0 < y1"
    by (auto simp add: intersection_def Let_def new_Rect_def x0_def x1_def y0_def y1_def
        split: if_splits)
  then have m: "x0 < (x0 + x1) / 2" "(x0 + x1) / 2 < x1" "y0 < (y0 + y1) / 2" "(y0 + y1) / 2 < y1"
    by simp_all
  have b: "Rect.left r \<le> x0" "Rect.left r' \<le> x0"
    "x1 \<le> Rect.left r + Rect.width r" "x1 \<le> Rect.left r' + Rect.width r'"
    "Rect.top r \<le> y0" "Rect.top r' \<le> y0"
    "y1 \<le> Rect.top r + Rect.height r" "y1 \<le> Rect.top r' + Rect.height r'"
    by (simp_all add: x0_def x1_def y0_def y1_def)
  define mx where "mx = (x0 + x1) / 2"
  define my where "my = (y0 + y1) / 2"
  from m b have "strictly_inside r (mx, my) \<and> strictly_inside r' (mx, my)"
    unfolding strictly_inside_def mx_def [symmetric] my_def [symmetric] by auto
  then show "\<exists>p. strictly_inside r p \<and> strictly_inside r' p" by blast
next
  assume "\<exists>p. strictly_inside r p \<and> strictly_inside r' p"
  then show "overlap r r'"
    by (auto simp add: overlap_def strictly_inside_def intersection_def Let_def new_Rect_def)
qed

text \<open>
  With sums, differences and products that are exact, the rectangles of the difference
  are pairwise non-overlapping, their areas and that of the intersection add up to the
  area of \<open>a\<close>, and they are the bands in their order.
\<close>

lemma difference_partitions_exact:
  assumes "intersects a b"
    and "0 \<le> Rect.width a" and "0 \<le> Rect.height a"
    and "0 \<le> Rect.width b" and "0 \<le> Rect.height b"
  shows "\<exists>i. intersection a b = Some i \<and>
           non_overlapping (difference a b) \<and>
           sum_list (map exact_area (difference a b)) + exact_area i = exact_area a \<and>
           difference a b =
             (if Rect.height i = 0 \<or> Rect.width i = 0 then [clone a]
              else bands_top_bottom_left_right a b)"
proof -
  from intersects_intersection[OF assms] obtain i where i: "intersection a b = Some i" ..
  show ?thesis
  proof (cases "Rect.height i = 0 \<or> Rect.width i = 0")
    case True
    then have d: "difference a b = [clone a]"
      using i by (intro difference_no_overlap) auto
    have "exact_area i = 0" using True by (auto simp add: exact_area_def)
    then show ?thesis using i d True by (simp add: clone_id)
  next
    case False
    then have d: "difference a b = bands_top_bottom_left_right a b"
      using i by (intro difference_bands) auto
    show ?thesis
      using i d False bands_area[OF i] bands_non_overlapping[OF i] by simp
  qed
qed

section \<open>Rect: objects and values\<close>

text \<open>
  What the functions on objects do to the store, in terms of the functions on values:
  the static intersection appends its result, if there is one; the instance method
  overwrites its receiver, if there is one; the difference appends the intersection, if
  there is one, and then the rectangles of the difference, and returns their references.
\<close>

lemma Rect_update_all:
  "(r::Rect)\<lparr>Rect.left := x, Rect.top := y, Rect.width := w, Rect.height := h\<rparr> = new_Rect x y w h"
  by (simp add: new_Rect_def)

lemma intersection_obj_eq:
  "intersection_obj a b s =
    (case intersection (s ! a) (s ! b) of
       None \<Rightarrow> (None, s)
     | Some i \<Rightarrow> (Some (length s), s @ [i]))"
  by (auto simp add: intersection_obj_def intersection_def alloc_Rect_def Let_def)

lemma clone_obj_eq: "clone_obj this s = (length s, s @ [clone (s ! this)])"
  by (simp add: clone_obj_def clone_def alloc_Rect_def)

lemma prototype_intersection_obj_eq:
  assumes "this < length s"
  shows "prototype_intersection_obj this rect s =
    (case intersection (s ! this) (s ! rect) of
       None \<Rightarrow> (False, s)
     | Some i \<Rightarrow> (True, s[this := i]))"
  using assms
  by (auto simp add: prototype_intersection_obj_def intersection_def Let_def Rect_update_all)

lemma difference_obj_eq:
  assumes "a < length s" and "b < length s"
  shows "difference_obj a b s =
    (let io = (case intersection (s ! a) (s ! b) of None \<Rightarrow> [] | Some i \<Rightarrow> [i]);
         ds = difference (s ! a) (s ! b);
         n = length s + length io
     in ([n ..< n + length ds], s @ io @ ds))"
proof (cases "intersection (s ! a) (s ! b)")
  case None
  then show ?thesis
    by (simp add: difference_obj_def intersection_obj_eq clone_obj_eq difference_def)
next
  case (Some i)
  show ?thesis
  proof (cases "Rect.height i = 0 \<or> Rect.width i = 0")
    case True
    then show ?thesis using Some assms
      by (auto simp add: difference_obj_def intersection_obj_eq clone_obj_eq difference_def
          nth_append)
  next
    case False
    then show ?thesis using Some assms
      by (auto simp add: difference_obj_def intersection_obj_eq difference_def nth_append
          alloc_Rect_def Let_def upt_rec)
  qed
qed

text \<open>
  C3. For every rectangle \<open>this\<close> and every rectangle \<open>rect\<close>, the instance method
  \<open>this.intersection(rect)\<close> computes \<open>x0\<close>, the greater of the lefts, \<open>x1\<close>, the lesser
  of the rights, and \<open>y0\<close>, \<open>y1\<close> alike. When \<open>x0 \<le> x1\<close> and \<open>y0 \<le> y1\<close> it
  overwrites \<open>this\<close> with \<open>(x0, y0, x1 - x0, y1 - y0)\<close> and returns true; a touch at a
  boundary gives a width or height of zero. Otherwise it returns false and the store,
  with it every field of \<open>this\<close>, is as before.
\<close>

theorem C3_prototype_intersection:
  assumes "this < length s"
  shows "prototype_intersection_obj this rect s =
    (let x0 = max (Rect.left (s ! this)) (Rect.left (s ! rect));
         x1 = min (Rect.left (s ! this) + Rect.width (s ! this))
                  (Rect.left (s ! rect) + Rect.width (s ! rect));
         y0 = max (Rect.top (s ! this)) (Rect.top (s ! rect));
         y1 = min (Rect.top (s ! this) + Rect.height (s ! this))
                  (Rect.top (s ! rect) + Rect.height (s ! rect))
     in if x0 \<le> x1 \<and> y0 \<le> y1
        then (True, s[this := new_Rect x0 y0 (x1 - x0) (y1 - y0)])
        else (False, s))"
  using assms by (auto simp add: prototype_intersection_obj_def Let_def Rect_update_all)

theorem C3_witness:
  "prototype_intersection_obj 0 1 [new_Rect 0 0 10 10, new_Rect 5 5 10 10] =
     (True, [new_Rect 5 5 5 5, new_Rect 5 5 10 10]) \<and>
   prototype_intersection_obj 0 1 [new_Rect 0 0 1 1, new_Rect 1 0 1 1] =
     (True, [new_Rect 1 0 0 1, new_Rect 1 0 1 1]) \<and>
   prototype_intersection_obj 0 1 [new_Rect 0 0 1 1, new_Rect 2 0 1 1] =
     (False, [new_Rect 0 0 1 1, new_Rect 2 0 1 1]) \<and>
   prototype_intersection_obj 0 0 [new_Rect 0 0 1 1] = (True, [new_Rect 0 0 1 1])"
  using C3_prototype_intersection [of 0 "[new_Rect 0 0 10 10, new_Rect 5 5 10 10]" 1]
    C3_prototype_intersection [of 0 "[new_Rect 0 0 1 1, new_Rect 1 0 1 1]" 1]
    C3_prototype_intersection [of 0 "[new_Rect 0 0 1 1, new_Rect 2 0 1 1]" 1]
    C3_prototype_intersection [of 0 "[new_Rect 0 0 1 1]" 0]
  by (simp add: new_Rect_def)

text \<open>
  C4. For all rectangles \<open>a\<close> and \<open>b\<close>, \<open>a.intersection(b)\<close> returns true if and only if
  the static \<open>Rect.intersection(a,b)\<close> returns a rectangle; then \<open>a\<close> after the instance
  call has the fields of the rectangle the static call returns. The static call returns a
  new object and leaves every object of the store, \<open>a\<close> and \<open>b\<close> among them, as it was.
\<close>

theorem C4_instance_and_static_intersection_agree:
  assumes "a < length s" and "b < length s"
  shows "(fst (prototype_intersection_obj a b s) \<longleftrightarrow> fst (intersection_obj a b s) \<noteq> None) \<and>
         (\<forall>r. fst (intersection_obj a b s) = Some r \<longrightarrow>
                snd (prototype_intersection_obj a b s) ! a = snd (intersection_obj a b s) ! r \<and>
                length s \<le> r) \<and>
         take (length s) (snd (intersection_obj a b s)) = s \<and>
         snd (intersection_obj a b s) ! a = s ! a \<and>
         snd (intersection_obj a b s) ! b = s ! b"
  using assms
  by (auto simp add: prototype_intersection_obj_eq intersection_obj_eq nth_append
      split: option.splits)

theorem C4_witness:
  "fst (prototype_intersection_obj 0 1 [new_Rect 0 0 10 10, new_Rect 5 5 10 10]) \<and>
   intersection_obj 0 1 [new_Rect 0 0 10 10, new_Rect 5 5 10 10] =
     (Some 2, [new_Rect 0 0 10 10, new_Rect 5 5 10 10, new_Rect 5 5 5 5]) \<and>
   snd (prototype_intersection_obj 0 1 [new_Rect 0 0 10 10, new_Rect 5 5 10 10]) ! 0 =
     new_Rect 5 5 5 5"
proof -
  let ?s = "[new_Rect 0 0 10 10, new_Rect 5 5 10 10]"
  have st: "intersection_obj 0 1 ?s = (Some 2, ?s @ [new_Rect 5 5 5 5])"
    by (simp add: intersection_obj_def alloc_Rect_def new_Rect_def)
  have l: "(0::nat) < length ?s" "(1::nat) < length ?s" by simp_all
  from C4_instance_and_static_intersection_agree [OF l] st
  have "fst (prototype_intersection_obj 0 1 ?s)"
    and "snd (prototype_intersection_obj 0 1 ?s) ! 0 = (?s @ [new_Rect 5 5 5 5]) ! 2"
    by simp_all
  then show ?thesis using st by simp
qed

lemma not_intersects_intersection:
  assumes "\<not> intersects a b"
  shows "intersection a b = None"
  using assms by (auto simp add: intersection_def intersects_def Let_def)

text \<open>
  C5. For all rectangles \<open>a\<close> and \<open>b\<close>, when \<open>Rect.intersection(a,b)\<close> is \<open>null\<close> or has
  zero width or zero height, in particular when \<open>a\<close> and \<open>b\<close> do not intersect,
  \<open>Rect.difference(a,b)\<close> returns an array of one element, a clone of \<open>a\<close>: a new
  object with the fields of \<open>a\<close>.
\<close>

theorem C5_difference_without_overlap:
  assumes "a < length s" and "b < length s"
    and "\<not> intersects (s ! a) (s ! b) \<or> intersection (s ! a) (s ! b) = None \<or>
         (\<exists>i. intersection (s ! a) (s ! b) = Some i \<and> (Rect.width i = 0 \<or> Rect.height i = 0))"
  shows "difference (s ! a) (s ! b) = [clone (s ! a)] \<and>
         (\<exists>c s'. difference_obj a b s = ([c], s') \<and>
            length s \<le> c \<and> c < length s' \<and> s' ! c = s ! a \<and> take (length s) s' = s)"
proof -
  from assms(3) have n: "case intersection (s ! a) (s ! b) of None \<Rightarrow> True
      | Some i \<Rightarrow> Rect.height i = 0 \<or> Rect.width i = 0"
    by (auto simp add: not_intersects_intersection)
  then have d: "difference (s ! a) (s ! b) = [clone (s ! a)]"
    by (rule difference_no_overlap)
  show ?thesis
    using assms(1,2) d
    by (auto simp add: difference_obj_eq Let_def clone_id nth_append split: option.splits)
qed

theorem C5_witness:
  "\<not> intersects (new_Rect 0 0 1 1) (new_Rect 5 5 1 1) \<and>
   difference (new_Rect 0 0 1 1) (new_Rect 5 5 1 1) = [new_Rect 0 0 1 1] \<and>
   difference_obj 0 1 [new_Rect 0 0 1 1, new_Rect 5 5 1 1] =
     ([2], [new_Rect 0 0 1 1, new_Rect 5 5 1 1, new_Rect 0 0 1 1])"
proof -
  let ?s = "[new_Rect 0 0 1 1, new_Rect 5 5 1 1]"
  have n: "\<not> intersects (?s ! 0) (?s ! 1)" by (simp add: intersects_def new_Rect_def)
  have l: "(0::nat) < length ?s" "(1::nat) < length ?s" by simp_all
  from C5_difference_without_overlap [OF l disjI1, OF n]
  have "difference (?s ! 0) (?s ! 1) = [clone (?s ! 0)]" by blast
  moreover have "difference_obj 0 1 ?s = ([2], ?s @ [new_Rect 0 0 1 1])"
    by (simp add: difference_obj_def intersection_obj_def clone_obj_def alloc_Rect_def
        new_Rect_def)
  ultimately show ?thesis using n by (simp add: clone_id)
qed

text \<open>
  C10. For all rectangles \<open>a\<close> and \<open>b\<close>, \<open>Rect.difference(a,b)\<close> and the instance form
  \<open>a.difference(b)\<close>, which does the same, leave \<open>a\<close> and \<open>b\<close> and every other object
  of the store as they were. Every rectangle of the returned array is an object allocated
  by the call, none of them \<open>a\<close> or \<open>b\<close>, no two the same, and their fields are those
  of the rectangles of the difference.
\<close>

theorem C10_difference_frame:
  assumes "a < length s" and "b < length s"
  shows "snd (difference_obj a b s) ! a = s ! a \<and>
         snd (difference_obj a b s) ! b = s ! b \<and>
         take (length s) (snd (difference_obj a b s)) = s \<and>
         (\<forall>r \<in> set (fst (difference_obj a b s)).
            length s \<le> r \<and> r < length (snd (difference_obj a b s)) \<and> r \<noteq> a \<and> r \<noteq> b) \<and>
         distinct (fst (difference_obj a b s)) \<and>
         map ((!) (snd (difference_obj a b s))) (fst (difference_obj a b s)) =
           difference (s ! a) (s ! b) \<and>
         prototype_difference_obj a b s = difference_obj a b s"
  using assms
  by (auto simp add: difference_obj_eq prototype_difference_obj_def Let_def nth_append
      intro: nth_equalityI)

theorem C10_witness:
  "difference_obj 0 1 [new_Rect 0 0 10 10, new_Rect 5 5 10 10] =
     ([3, 4], [new_Rect 0 0 10 10, new_Rect 5 5 10 10, new_Rect 5 5 5 5,
               new_Rect 0 0 10 5, new_Rect 0 5 5 5]) \<and>
   snd (prototype_difference_obj 0 1 [new_Rect 0 0 10 10, new_Rect 5 5 10 10]) ! 0 =
     new_Rect 0 0 10 10 \<and>
   snd (prototype_difference_obj 0 1 [new_Rect 0 0 10 10, new_Rect 5 5 10 10]) ! 1 =
     new_Rect 5 5 10 10"
proof -
  let ?s = "[new_Rect 0 0 10 10, new_Rect 5 5 10 10]"
  have l: "(0::nat) < length ?s" "(1::nat) < length ?s" by simp_all
  have d: "difference_obj 0 1 ?s =
     ([3, 4], ?s @ [new_Rect 5 5 5 5, new_Rect 0 0 10 5, new_Rect 0 5 5 5])"
    by (simp add: difference_obj_def intersection_obj_def alloc_Rect_def Let_def)
      (simp add: new_Rect_def)
  from C10_difference_frame [OF l]
  have "snd (prototype_difference_obj 0 1 ?s) ! 0 = ?s ! 0"
    and "snd (prototype_difference_obj 0 1 ?s) ! 1 = ?s ! 1"
    by simp_all
  then show ?thesis using d by simp
qed

section \<open>Rounding to a double\<close>

lemma pos_of_power_int_le:
  fixes v :: real
  assumes "2 powi k \<le> v"
  shows "0 < v"
proof -
  have "0 < (2::real) powi k" by simp
  with assms show ?thesis by linarith
qed

lemma floor_log2_eqI:
  assumes "2 powi e \<le> v" and "v < 2 powi (e + 1)"
  shows "\<lfloor>log 2 v\<rfloor> = e"
proof -
  have p: "0 < v" using assms(1) by (rule pos_of_power_int_le)
  have "2 powr real_of_int e \<le> v" using assms(1) by (simp add: powr_real_of_int')
  moreover have "v < 2 powr (real_of_int e + 1)"
    using assms(2) powr_real_of_int' [of 2 "e + 1"] by simp
  ultimately show ?thesis using p by (subst floor_log_eq_powr_iff) simp_all
qed

lemma exponent64_eqI:
  assumes "2 powi e \<le> v" and "v < 2 powi (e + 1)"
  shows "exponent64 v = max e (- 1022)"
  using floor_log2_eqI [OF assms] by (simp add: exponent64_def)

lemma round_magnitude_eqI:
  assumes "2 powi e \<le> v" and "v < 2 powi (e + 1)"
    and "u = 2 powi (max e (- 1022) - 52)"
    and "round_half_even (v / u) = n"
  shows "round_magnitude v = of_int n * u"
  using assms exponent64_eqI [OF assms(1,2)] by (simp add: round_magnitude_def ulp64_def)

lemma round_half_even_of_int [simp]: "round_half_even (of_int m) = m"
  by (simp add: round_half_even_def)

lemma round_half_even_ge:
  assumes "of_int m \<le> q"
  shows "m \<le> round_half_even q"
proof -
  have "m \<le> \<lfloor>q\<rfloor>" using assms by (simp add: le_floor_iff)
  then show ?thesis by (auto simp add: round_half_even_def Let_def)
qed

lemma round_half_even_le:
  assumes "q \<le> of_int m"
  shows "round_half_even q \<le> m"
proof (cases "q = of_int m")
  case True
  then show ?thesis by simp
next
  case False
  with assms have "q < of_int m" by simp
  then have "\<lfloor>q\<rfloor> < m" by (simp add: floor_less_iff)
  then show ?thesis by (auto simp add: round_half_even_def Let_def)
qed

lemma ulp64_pos [simp]: "0 < ulp64 v"
  by (simp add: ulp64_def)

lemma ulp64_nonneg [simp]: "0 \<le> ulp64 v"
  by (simp add: ulp64_def)

lemma ulp64_neq0 [simp]: "ulp64 v \<noteq> 0"
  by (simp add: ulp64_def)

lemma power_int_div2:
  fixes j k :: int
  shows "(2::real) powi k / 2 powi j = 2 powi (k - j)"
  by (simp add: power_int_diff)


lemma floor_log2_bounds:
  assumes "0 < v"
  shows "2 powi \<lfloor>log 2 v\<rfloor> \<le> v" and "v < 2 powi (\<lfloor>log 2 v\<rfloor> + 1)"
proof -
  have "2 powr real_of_int \<lfloor>log 2 v\<rfloor> \<le> v \<and> v < 2 powr (real_of_int \<lfloor>log 2 v\<rfloor> + 1)"
    using assms floor_log_eq_powr_iff [of v 2 "\<lfloor>log 2 v\<rfloor>"] by simp
  then show "2 powi \<lfloor>log 2 v\<rfloor> \<le> v" and "v < 2 powi (\<lfloor>log 2 v\<rfloor> + 1)"
    using powr_real_of_int' [of 2 "\<lfloor>log 2 v\<rfloor> + 1"]
    by (simp_all add: powr_real_of_int')
qed

lemma round_magnitude_nonneg:
  assumes "0 \<le> v"
  shows "0 \<le> round_magnitude v"
proof -
  have "of_int 0 \<le> v / ulp64 v" using assms by simp
  then have "0 \<le> round_half_even (v / ulp64 v)"
    by (rule round_half_even_ge)
  then show ?thesis by (simp add: round_magnitude_def)
qed

lemma power_int_mono2:
  fixes j k :: int
  assumes "j \<le> k"
  shows "(2::real) powi j \<le> 2 powi k"
  using assms by (simp add: power_int_increasing)

lemma power_int_diff_int:
  fixes j k :: int
  assumes "j \<le> k"
  shows "(2::real) powi k / 2 powi j = of_int (2 ^ nat (k - j))"
proof -
  have "(2::real) powi k = 2 powi (j + int (nat (k - j)))" using assms by simp
  also have "\<dots> = 2 powi j * 2 ^ nat (k - j)"
    by (subst power_int_add) (simp_all add: power_int_def)
  finally show ?thesis by simp
qed

text \<open>A power of two below a value stays below the rounded value.\<close>

lemma round_magnitude_ge_power:
  assumes "2 powi k \<le> v" and "- 1074 \<le> k"
  shows "2 powi k \<le> round_magnitude v"
proof -
  have p: "0 < v" using assms(1) by (rule pos_of_power_int_le)
  note b = floor_log2_bounds [OF p]
  define E where "E = exponent64 v"
  have u: "ulp64 v = 2 powi (E - 52)" by (simp add: ulp64_def E_def)
  have kE: "k \<le> \<lfloor>log 2 v\<rfloor>"
  proof (rule ccontr)
    assume "\<not> k \<le> \<lfloor>log 2 v\<rfloor>"
    then have "\<lfloor>log 2 v\<rfloor> + 1 \<le> k" by simp
    then have "(2::real) powi (\<lfloor>log 2 v\<rfloor> + 1) \<le> 2 powi k" by (rule power_int_mono2)
    with b(2) assms(1) show False by simp
  qed
  show ?thesis
  proof (cases "- 1022 \<le> \<lfloor>log 2 v\<rfloor>")
    case True
    then have E: "E = \<lfloor>log 2 v\<rfloor>" by (simp add: E_def exponent64_def)
    have "of_int (2 ^ 52) = (2::real) powi E / 2 powi (E - 52)"
      by (subst power_int_diff_int) simp_all
    also have "\<dots> \<le> v / ulp64 v"
      using b(1) by (simp add: u E divide_right_mono)
    finally have "2 ^ 52 \<le> round_half_even (v / ulp64 v)" by (rule round_half_even_ge)
    then have "(2 ^ 52) * ulp64 v \<le> round_magnitude v"
      unfolding round_magnitude_def
      by (intro mult_right_mono) (simp_all add: of_int_le_iff [symmetric] del: of_int_le_iff)
    moreover have "(2 ^ 52) * ulp64 v = 2 powi E"
      using power_int_diff_int [of "E - 52" E] by (simp add: u field_simps)
    moreover have "(2::real) powi k \<le> 2 powi E" using kE E by (intro power_int_mono2) simp
    ultimately show ?thesis by simp
  next
    case False
    then have E: "E = - 1022" by (simp add: E_def exponent64_def)
    have u': "ulp64 v = 2 powi (- 1074)" by (simp add: u E)
    have "of_int (2 ^ nat (k + 1074)) = (2::real) powi k / 2 powi (- 1074)"
      using assms(2) by (subst power_int_diff_int) simp_all
    also have "\<dots> \<le> v / ulp64 v"
      using assms(1) by (simp add: u' divide_right_mono)
    finally have "2 ^ nat (k + 1074) \<le> round_half_even (v / ulp64 v)"
      by (rule round_half_even_ge)
    then have "of_int (2 ^ nat (k + 1074)) * ulp64 v \<le> round_magnitude v"
      unfolding round_magnitude_def
      by (intro mult_right_mono) (simp_all add: of_int_le_iff [symmetric] del: of_int_le_iff)
    moreover have "of_int (2 ^ nat (k + 1074)) * ulp64 v = 2 powi k"
      using power_int_diff_int [of "- 1074" k] assms(2) by (simp add: u' field_simps)
    ultimately show ?thesis by simp
  qed
qed

lemma floor_log2_le:
  assumes "0 < v" and "v \<le> 2 powi k"
  shows "\<lfloor>log 2 v\<rfloor> \<le> k"
proof (rule ccontr)
  assume "\<not> \<lfloor>log 2 v\<rfloor> \<le> k"
  then have "k + 1 \<le> \<lfloor>log 2 v\<rfloor>" by simp
  then have "(2::real) powi (k + 1) \<le> 2 powi \<lfloor>log 2 v\<rfloor>" by (rule power_int_mono2)
  moreover have "(2::real) powi k < 2 powi (k + 1)" by (simp add: power_int_strict_increasing)
  ultimately show False using floor_log2_bounds(1) [OF assms(1)] assms(2) by simp
qed

text \<open>A power of two above a value stays above the rounded value.\<close>

lemma round_magnitude_le_power:
  assumes "0 < v" and "v \<le> 2 powi k"
  shows "round_magnitude v \<le> 2 powi k"
proof -
  define E where "E = exponent64 v"
  have u: "ulp64 v = 2 powi (E - 52)" by (simp add: ulp64_def E_def)
  have kE: "\<lfloor>log 2 v\<rfloor> \<le> k" using assms by (rule floor_log2_le)
  show ?thesis
  proof (cases "E - 52 \<le> k")
    case True
    define m :: int where "m = 2 ^ nat (k - (E - 52))"
    have m: "of_int m = (2::real) powi k / 2 powi (E - 52)"
      unfolding m_def using True by (subst power_int_diff_int) simp_all
    have "v / ulp64 v \<le> of_int m"
      using assms(2) by (simp add: m u divide_right_mono)
    then have "round_half_even (v / ulp64 v) \<le> m" by (rule round_half_even_le)
    then have "round_magnitude v \<le> of_int m * ulp64 v"
      unfolding round_magnitude_def by (intro mult_right_mono) simp_all
    also have "of_int m * ulp64 v = 2 powi k" by (simp add: m u)
    finally show ?thesis .
  next
    case False
    then have E: "E = - 1022" and k: "k < - 1074"
      using kE by (auto simp add: E_def exponent64_def max_def split: if_splits)
    have u': "ulp64 v = 2 powi (- 1074)" by (simp add: u E)
    have "v / ulp64 v \<le> 2 powi k / 2 powi (- 1074)"
      using assms(2) by (simp add: u' divide_right_mono)
    also have "\<dots> = 2 powi (k + 1074)"
      using power_int_div2 [of k "- 1074"] by (simp only: diff_minus_eq_add)
    also have "\<dots> \<le> 2 powi (- 1)" using k by (intro power_int_mono2) simp
    finally have "v / ulp64 v \<le> 1 / 2" by (simp add: power_int_minus)
    moreover have "0 < v / ulp64 v" using assms(1) by simp
    moreover define q where "q = v / ulp64 v"
    ultimately have q: "q \<le> 1 / 2" and q0: "0 < q" by simp_all
    have "\<lfloor>q\<rfloor> = 0" by (rule floor_unique) (use q q0 in simp_all)
    with q have "round_half_even q = 0"
      by (auto simp add: round_half_even_def Let_def)
    then have "round_magnitude v = 0" by (simp add: round_magnitude_def q_def)
    then show ?thesis by simp
  qed
qed

lemma round_magnitude_exact:
  assumes "v / ulp64 v = of_int m"
  shows "round_magnitude v = v"
proof -
  from assms have "v = of_int m * ulp64 v" by (simp add: field_simps)
  then show ?thesis using assms by (simp add: round_magnitude_def)
qed


lemma round_magnitude_of_int:
  assumes "1 \<le> n" and "n \<le> 2 ^ 53"
  shows "round_magnitude (of_int n) = of_int n"
proof -
  define v :: real where "v = of_int n"
  have p: "0 < v" and v1: "2 powi 0 \<le> v" and v53: "v \<le> 2 powi 53"
    using assms by (simp_all add: v_def)
  define E where "E = exponent64 v"
  have u: "ulp64 v = 2 powi (E - 52)" by (simp add: ulp64_def E_def)
  have lo: "0 \<le> \<lfloor>log 2 v\<rfloor>"
  proof (rule ccontr)
    assume "\<not> 0 \<le> \<lfloor>log 2 v\<rfloor>"
    then have "\<lfloor>log 2 v\<rfloor> + 1 \<le> 0" by linarith
    then have "(2::real) powi (\<lfloor>log 2 v\<rfloor> + 1) \<le> 2 powi 0" by (rule power_int_mono2)
    with floor_log2_bounds(2) [OF p] v1 show False by simp
  qed
  have hi: "\<lfloor>log 2 v\<rfloor> \<le> 53" using p v53 by (rule floor_log2_le)
  have E: "E = \<lfloor>log 2 v\<rfloor>" using lo by (simp add: E_def exponent64_def)
  have "\<exists>m. v / ulp64 v = of_int m"
  proof (cases "E \<le> 52")
    case True
    have "v / ulp64 v = v * (2 powi 52 / 2 powi E)"
      by (simp add: u power_int_diff)
    also have "\<dots> = of_int (n * 2 ^ nat (52 - E))"
      using True by (subst power_int_diff_int) (simp_all add: v_def)
    finally show ?thesis by blast
  next
    case False
    with hi E have E53: "E = 53" by linarith
    have "2 powi 53 \<le> v" using floor_log2_bounds(1) [OF p] E E53 by simp
    with v53 have v: "v = 2 ^ 53" by simp
    have "ulp64 v = 2" by (simp add: u E53)
    then have "v / ulp64 v = of_int (2 ^ 52)" by (simp add: v)
    then show ?thesis by blast
  qed
  then obtain m where "v / ulp64 v = of_int m" ..
  then have "round_magnitude v = v" by (rule round_magnitude_exact)
  then show ?thesis by (simp add: v_def)
qed

lemma round64_0 [simp]: "round64 0 = Fin 0"
  by (simp add: round64_def)

lemma round64_neg: "round64 (- x) = js_neg (round64 x)"
  by (simp add: round64_def Let_def)

lemma round64_pos:
  assumes "0 < v"
  shows "round64 v = (if 2 ^ 1024 \<le> round_magnitude v then PosInf else Fin (round_magnitude v))"
  using assms by (simp add: round64_def Let_def)

lemma round64_nonneg:
  assumes "0 \<le> v"
  shows "round64 v = PosInf \<or> (\<exists>p. round64 v = Fin p \<and> 0 \<le> p)"
proof (cases "v = 0")
  case True
  then show ?thesis by simp
next
  case False
  with assms have "0 < v" by simp
  then show ?thesis using round_magnitude_nonneg [OF assms] by (simp add: round64_pos)
qed

lemma round64_ge:
  assumes "2 powi k \<le> v" and "- 1074 \<le> k"
  shows "round64 v = PosInf \<or> (\<exists>p. round64 v = Fin p \<and> 2 powi k \<le> p)"
proof -
  have "0 < v" using assms(1) by (rule pos_of_power_int_le)
  then show ?thesis using round_magnitude_ge_power [OF assms] by (simp add: round64_pos)
qed

lemma round64_le:
  assumes "0 \<le> v" and "v \<le> 2 powi k" and "k \<le> 1023"
  shows "\<exists>p. round64 v = Fin p \<and> 0 \<le> p \<and> p \<le> 2 powi k"
proof (cases "v = 0")
  case True
  then show ?thesis by simp
next
  case False
  with assms have p: "0 < v" by simp
  have "round_magnitude v \<le> 2 powi k" using p assms(2) by (rule round_magnitude_le_power)
  moreover have "(2::real) powi k \<le> 2 powi 1023" using assms(3) by (rule power_int_mono2)
  moreover have "(2::real) powi 1023 < 2 ^ 1024" by simp
  ultimately have "round_magnitude v < 2 ^ 1024" "round_magnitude v \<le> 2 powi k" by linarith+
  then show ?thesis using round_magnitude_nonneg [OF assms(1)] p by (simp add: round64_pos)
qed


lemma round64_of_int:
  assumes "\<bar>n\<bar> \<le> 2 ^ 53"
  shows "round64 (of_int n) = Fin (of_int n)"
proof -
  have pos: "round64 (of_int m) = Fin (of_int m)" if "1 \<le> m" "m \<le> 2 ^ 53" for m :: int
  proof -
    have "round_magnitude (of_int m) = of_int m" using that by (rule round_magnitude_of_int)
    moreover have "real_of_int m \<le> 2 ^ 53" using that(2) by (simp add: of_int_le_iff [symmetric] del: of_int_le_iff)
    moreover have "(2::real) ^ 53 < 2 ^ 1024" by simp
    ultimately show ?thesis using that(1) by (simp add: round64_pos)
  qed
  consider "n = 0" | "1 \<le> n" | "1 \<le> - n" by linarith
  then show ?thesis
  proof cases
    case 1
    then show ?thesis by simp
  next
    case 2
    then show ?thesis using assms by (intro pos) simp_all
  next
    case 3
    then have "round64 (of_int (- n)) = Fin (of_int (- n))" using assms by (intro pos) simp_all
    then show ?thesis using round64_neg [of "of_int n"] by (cases "round64 (of_int n)") simp_all
  qed
qed

lemma round64_Ints:
  assumes "x \<in> \<int>" and "\<bar>x\<bar> \<le> 2 ^ 53"
  shows "round64 x = Fin x"
proof -
  from assms(1) obtain n where x: "x = of_int n" by (rule Ints_cases)
  have "\<bar>n\<bar> \<le> 2 ^ 53" using assms(2) unfolding x
    by (simp add: of_int_le_iff [symmetric] del: of_int_le_iff)
  then show ?thesis unfolding x by (rule round64_of_int)
qed


lemma round64_eqI:
  assumes "2 powi e \<le> v" and "v < 2 powi (e + 1)"
    and "u = 2 powi (max e (- 1022) - 52)"
    and "round_half_even (v / u) = n"
    and "of_int n * u < 2 ^ 1024"
  shows "round64 v = Fin (of_int n * u)"
proof -
  have "0 < v" using assms(1) by (rule pos_of_power_int_le)
  moreover have "round_magnitude v = of_int n * u" using assms(1-4) by (rule round_magnitude_eqI)
  ultimately show ?thesis using assms(5) by (simp add: round64_pos)
qed





lemma round_half_even_numeral [simp]: "round_half_even (numeral k) = numeral k"
  using round_half_even_of_int [of "numeral k"] by simp

lemma round_half_even_0 [simp]: "round_half_even 0 = 0"
  using round_half_even_of_int [of 0] by simp

lemma round_half_even_1 [simp]: "round_half_even 1 = 1"
  using round_half_even_of_int [of 1] by simp

lemma round64_overflow:
  assumes "2 powi 1024 \<le> v"
  shows "round64 v = PosInf"
proof -
  have "0 < v" using assms by (rule pos_of_power_int_le)
  moreover have "2 powi 1024 \<le> round_magnitude v"
    using assms by (rule round_magnitude_ge_power) simp
  ultimately show ?thesis by (simp add: round64_pos)
qed

lemma round64_power_int:
  assumes "- 1074 \<le> k" and "k \<le> 1023"
  shows "round64 (2 powi k) = Fin (2 powi k)"
proof -
  from round64_le [of "2 powi k" k] assms(2) obtain p where
    p: "round64 (2 powi k) = Fin p" "p \<le> 2 powi k" by auto
  from round64_ge [of k "2 powi k"] assms(1) p(1) have "2 powi k \<le> p" by simp
  with p show ?thesis by simp
qed

lemma round64_numeral:
  assumes "numeral k \<le> (2::int) ^ 53"
  shows "round64 (numeral k) = Fin (numeral k)"
  using round64_of_int [of "numeral k"] assms by simp

lemma round64_neg_numeral:
  assumes "numeral k \<le> (2::int) ^ 53"
  shows "round64 (- numeral k) = Fin (- numeral k)"
  using round64_of_int [of "- numeral k"] assms by simp

lemma round64_1 [simp]: "round64 1 = Fin 1"
  using round64_of_int [of 1] by simp

lemma power_int_neg_nat: "(2::real) powi (- int n) = 1 / 2 ^ n"
  by (simp add: power_int_minus inverse_eq_divide)

lemma round64_inverse_power:
  assumes "n \<le> 1074"
  shows "round64 (1 / 2 ^ n) = Fin (1 / 2 ^ n)"
proof -
  have "round64 (2 powi (- int n)) = Fin (2 powi (- int n))"
    using assms by (intro round64_power_int) simp_all
  then show ?thesis by (simp only: power_int_neg_nat)
qed

lemma round64_exact:
  assumes "x \<in> \<int>" and "- (2 ^ 53) \<le> x" and "x \<le> 2 ^ 53"
  shows "round64 x = Fin x"
  using assms by (intro round64_Ints) simp_all

section \<open>The operators on numbers\<close>

lemma js_cmp_checks:
  "js_less_eq PosInf PosInf" "js_less_eq NegInf NegInf" "\<not> js_less PosInf PosInf"
  "\<not> js_less NegInf NegInf" "js_less NegInf PosInf" "\<not> js_less_eq PosInf NegInf"
  "js_less (Fin 1) PosInf" "js_less NegInf (Fin 1)" "\<not> js_less (Fin 1) NegInf"
  "\<not> js_less_eq NaN NaN" "js_less_eq (Fin 1) PosInf" "\<not> js_less_eq PosInf (Fin 1)"
  by simp_all

lemma js_plus_NaN_right [simp]: "js_plus x NaN = NaN"
  by (cases x) simp_all

lemma js_times_NaN_right [simp]: "js_times x NaN = NaN"
  by (cases x) simp_all





text \<open>Integers of moderate size are added and subtracted exactly.\<close>

lemma js_plus_exact:
  assumes "x \<in> \<int>" and "y \<in> \<int>" and "- (2 ^ 52) \<le> x" and "x \<le> 2 ^ 52"
    and "- (2 ^ 52) \<le> y" and "y \<le> 2 ^ 52"
  shows "js_plus (Fin x) (Fin y) = Fin (x + y)"
  using assms by (simp add: round64_exact)

lemma js_minus_exact:
  assumes "x \<in> \<int>" and "y \<in> \<int>" and "- (2 ^ 52) \<le> x" and "x \<le> 2 ^ 52"
    and "- (2 ^ 52) \<le> y" and "y \<le> 2 ^ 52"
  shows "js_minus (Fin x) (Fin y) = Fin (x - y)"
  using assms by (simp add: js_minus_def round64_exact)

lemma js_max_Fin [simp]: "js_max (Fin x) (Fin y) = Fin (max x y)"
  by (simp add: js_max_def max_def)

lemma js_min_Fin [simp]: "js_min (Fin x) (Fin y) = Fin (min x y)"
  by (auto simp add: js_min_def min_def)

lemma js_falsy_Fin [simp]: "js_falsy (Fin x) = (x = 0)"
  by (simp add: js_falsy_def)

lemma js_less_Fin: "js_less (Fin x) (Fin y) = (x < y)"
  by simp

section \<open>Rect and Box: the round trip\<close>

lemma round64_2p53_1: "round64 (2 ^ 53 + 1) = Fin (2 ^ 53)"
  by (subst round64_eqI [where e = 53 and u = 2 and n = "2 ^ 52"])
    (simp_all add: round_half_even_def)

text \<open>
  C6. Claimed: for every rectangle \<open>r\<close> with non-negative width and height,
  \<open>Rect.createFromBox(r.toBox())\<close> has the left, top, width and height of \<open>r\<close>.
  \<open>toBox\<close> stores the rounded sum \<open>left + width\<close> and \<open>createFromBox\<close> subtracts
  \<open>left\<close> from it again: for \<open>Rect(2^53, 0, 1, 0)\<close> the sum \<open>2^53 + 1\<close> is not a
  double and rounds to \<open>2^53\<close>, and the width that comes back is \<open>0\<close>.
\<close>

theorem C6_counterexample:
  "js_less_eq (Fin 0) (Rect64.width (new_Rect64 (Fin (2 ^ 53)) (Fin 0) (Fin 1) (Fin 0))) \<and>
   js_less_eq (Fin 0) (Rect64.height (new_Rect64 (Fin (2 ^ 53)) (Fin 0) (Fin 1) (Fin 0))) \<and>
   toBox (new_Rect64 (Fin (2 ^ 53)) (Fin 0) (Fin 1) (Fin 0)) =
     new_Box (Fin 0) (Fin (2 ^ 53)) (Fin 0) (Fin (2 ^ 53)) \<and>
   createFromBox (toBox (new_Rect64 (Fin (2 ^ 53)) (Fin 0) (Fin 1) (Fin 0))) =
     new_Rect64 (Fin (2 ^ 53)) (Fin 0) (Fin 0) (Fin 0)"
  by (simp add: toBox_def createFromBox_def new_Rect64_def new_Box_def js_minus_def Let_def
      round64_2p53_1 [simplified])

text \<open>
  C6, amended. For every rectangle \<open>r\<close> with finite fields and non-negative width and
  height whose sums \<open>left + width\<close> and \<open>top + height\<close> are doubles, so that
  \<open>toBox\<close> computes them without rounding, \<open>Rect.createFromBox(r.toBox())\<close> has the
  left, top, width and height of \<open>r\<close>.
\<close>

theorem C6_createFromBox_toBox:
  assumes "r = new_Rect64 (Fin l) (Fin t) (Fin w) (Fin h)"
    and "is_double (Fin w)" and "is_double (Fin h)"
    and "0 \<le> w" and "0 \<le> h"
    and "round64 (l + w) = Fin (l + w)" and "round64 (t + h) = Fin (t + h)"
  shows "createFromBox (toBox r) = r"
  using assms
  by (simp add: toBox_def createFromBox_def new_Rect64_def new_Box_def js_minus_def Let_def)

theorem C6_witness:
  "is_double (Fin 4) \<and> is_double (Fin 5) \<and>
   toBox (new_Rect64 (Fin 2) (Fin 3) (Fin 4) (Fin 5)) = new_Box (Fin 3) (Fin 6) (Fin 8) (Fin 2) \<and>
   createFromBox (toBox (new_Rect64 (Fin 2) (Fin 3) (Fin 4) (Fin 5))) =
     new_Rect64 (Fin 2) (Fin 3) (Fin 4) (Fin 5)"
proof -
  have d: "is_double (Fin 4)" "is_double (Fin 5)" by (simp_all add: round64_numeral)
  have s: "round64 (2 + 4) = Fin (2 + 4)" "round64 (3 + 5) = Fin (3 + 5)"
    by (simp_all add: round64_numeral)
  have b: "toBox (new_Rect64 (Fin 2) (Fin 3) (Fin 4) (Fin 5)) =
      new_Box (Fin 3) (Fin 6) (Fin 8) (Fin 2)"
    by (simp add: toBox_def new_Rect64_def new_Box_def round64_numeral)
  from C6_createFromBox_toBox [OF refl d _ _ s]
  have "createFromBox (toBox (new_Rect64 (Fin 2) (Fin 3) (Fin 4) (Fin 5))) =
     new_Rect64 (Fin 2) (Fin 3) (Fin 4) (Fin 5)" by simp
  with d b show ?thesis by blast
qed

text \<open>The left and the top come back whatever the rectangle.\<close>

lemma createFromBox_toBox_left_top:
  "Rect64.left (createFromBox (toBox r)) = Rect64.left r \<and>
   Rect64.top (createFromBox (toBox r)) = Rect64.top r"
  by (simp add: toBox_def createFromBox_def new_Rect64_def new_Box_def Let_def)

section \<open>Size: scaling to fit\<close>

lemma Size_scale_uniform:
  "Size_scale k None this = new_Size (js_times (Size.width this) k) (js_times (Size.height this) k)"
  by (simp add: Size_scale_def isNumber_def new_Size_def)

lemma round64_4_3: "round64 (4 / 3) = Fin (6004799503160661 / 2 ^ 52)"
  by (subst round64_eqI [where e = 0 and u = "1 / 2 ^ 52" and n = 6004799503160661])
    (simp_all add: round_half_even_def power_int_minus)

lemma round64_8_3: "round64 (8 / 3) = Fin (6004799503160661 / 2 ^ 51)"
  by (subst round64_eqI [where e = 1 and u = "1 / 2 ^ 51" and n = 6004799503160661])
    (simp_all add: round_half_even_def power_int_minus)

lemma round64_2_3: "round64 (2 / 3) = Fin (6004799503160661 / 2 ^ 53)"
  by (subst round64_eqI [where e = "- 1" and u = "1 / 2 ^ 53" and n = 6004799503160661])
    (simp_all add: round_half_even_def power_int_minus)

lemma round64_3_2: "round64 (3 / 2) = Fin (3 / 2)"
  by (subst round64_eqI [where e = 0 and u = "1 / 2 ^ 52" and n = "3 * 2 ^ 51"])
    (simp_all add: power_int_minus)

lemma round64_1_2: "round64 (1 / 2) = Fin (1 / 2)"
  using round64_inverse_power [of 1] by simp

lemma scaleToFit_4_3_8_3:
  "scaleToFit (new_Size (Fin 4) (Fin 3)) (new_Size (Fin 8) (Fin 3)) = new_Size (Fin 4) (Fin 3)"
  by (simp add: scaleToFit_def aspectRatio_def Size_scale_uniform new_Size_def
      round64_4_3 [simplified] round64_8_3 [simplified] round64_numeral)

text \<open>
  C7. Claimed: for sizes of strictly positive dimensions, \<open>this.scaleToFit(target)\<close>
  scales by \<open>target.width / this.width\<close> when the aspect ratio of \<open>this\<close> exceeds that
  of \<open>target\<close>, and by \<open>target.height / this.height\<close> otherwise. The ratios the source
  compares are the computed ones. For \<open>Size(2^520, 2^-520)\<close> and the target
  \<open>Size(2^520, 2^-510)\<close> the first ratio, \<open>2^1040\<close>, exceeds the second, \<open>2^1030\<close>,
  and \<open>target.width / this.width\<close> is \<open>1\<close>; but both ratios overflow to
  \<open>Infinity\<close>, the comparison is false, and the size is scaled by
  \<open>target.height / this.height = 1024\<close>.
\<close>

theorem C7_counterexample:
  "is_double (Fin (2 ^ 520)) \<and> is_double (Fin (1 / 2 ^ 520)) \<and> is_double (Fin (1 / 2 ^ 510)) \<and>
   (2 ^ 520 / (1 / 2 ^ 520) :: real) > 2 ^ 520 / (1 / 2 ^ 510) \<and>
   js_divide (Fin (2 ^ 520)) (Fin (2 ^ 520)) = Fin 1 \<and>
   aspectRatio (new_Size (Fin (2 ^ 520)) (Fin (1 / 2 ^ 520))) = PosInf \<and>
   aspectRatio (new_Size (Fin (2 ^ 520)) (Fin (1 / 2 ^ 510))) = PosInf \<and>
   scaleToFit (new_Size (Fin (2 ^ 520)) (Fin (1 / 2 ^ 520)))
              (new_Size (Fin (2 ^ 520)) (Fin (1 / 2 ^ 510))) =
     new_Size (Fin (2 ^ 530)) (Fin (1 / 2 ^ 510))"
proof -
  have d1: "is_double (Fin (2 ^ 520))" using round64_power_int [of 520] by simp
  have d2: "is_double (Fin (1 / 2 ^ 520))"
    using round64_inverse_power [of 520] by simp
  have d3: "is_double (Fin (1 / 2 ^ 510))"
    using round64_inverse_power [of 510] by simp
  have r: "(2 ^ 520 / (1 / 2 ^ 520) :: real) > 2 ^ 520 / (1 / 2 ^ 510)" by simp
  have one: "js_divide (Fin (2 ^ 520)) (Fin (2 ^ 520)) = Fin 1" by simp
  have a1: "aspectRatio (new_Size (Fin (2 ^ 520)) (Fin (1 / 2 ^ 520))) = PosInf"
  proof -
    have "round64 (2 ^ 520 / (1 / 2 ^ 520)) = PosInf" by (rule round64_overflow) simp
    then show ?thesis by (simp add: aspectRatio_def new_Size_def)
  qed
  have a2: "aspectRatio (new_Size (Fin (2 ^ 520)) (Fin (1 / 2 ^ 510))) = PosInf"
  proof -
    have "round64 (2 ^ 520 / (1 / 2 ^ 510)) = PosInf" by (rule round64_overflow) simp
    then show ?thesis by (simp add: aspectRatio_def new_Size_def)
  qed
  have k: "js_divide (Fin (1 / 2 ^ 510)) (Fin (1 / 2 ^ 520)) = Fin 1024"
  proof -
    have "round64 1024 = Fin 1024" by (rule round64_numeral) simp
    then show ?thesis by simp
  qed
  have w: "js_times (Fin (2 ^ 520)) (Fin 1024) = Fin (2 ^ 530)"
    using round64_power_int [of 530] by simp
  have h: "js_times (Fin (1 / 2 ^ 520)) (Fin 1024) = Fin (1 / 2 ^ 510)"
    using round64_inverse_power [of 510] by simp
  have "scaleToFit (new_Size (Fin (2 ^ 520)) (Fin (1 / 2 ^ 520)))
              (new_Size (Fin (2 ^ 520)) (Fin (1 / 2 ^ 510))) =
     new_Size (Fin (2 ^ 530)) (Fin (1 / 2 ^ 510))"
    unfolding scaleToFit_def a1 a2 Size_scale_uniform
    by (simp only: js_less.simps if_False Let_def new_Size_def Size.select_convs k w h)
  with d1 d2 d3 r one a1 a2 show ?thesis by blast
qed

text \<open>
  C7, amended. For all sizes \<open>this\<close> and \<open>target\<close> whose widths and heights are strictly
  positive, \<open>this.scaleToFit(target)\<close> multiplies both dimensions of \<open>this\<close> by one
  factor, each product rounded: \<open>target.width / this.width\<close> when \<open>this.aspectRatio()\<close>,
  as computed, exceeds \<open>target.aspectRatio()\<close>, as computed, and
  \<open>target.height / this.height\<close> otherwise. When the four dimensions are finite, the
  factor and both dimensions of the result are numbers not below zero (zero and
  \<open>Infinity\<close> among them), never \<open>NaN\<close>. \<open>Size(4,3).scaleToFit(Size(8,3))\<close> is
  \<open>Size(4,3)\<close>.
\<close>

theorem C7_scaleToFit:
  assumes "js_less (Fin 0) (Size.width this)" and "js_less (Fin 0) (Size.height this)"
    and "js_less (Fin 0) (Size.width target)" and "js_less (Fin 0) (Size.height target)"
  shows "(let k = (if js_less (js_divide (Size.width target) (Size.height target))
                              (js_divide (Size.width this) (Size.height this))
                   then js_divide (Size.width target) (Size.width this)
                   else js_divide (Size.height target) (Size.height this))
          in scaleToFit this target =
               new_Size (js_times (Size.width this) k) (js_times (Size.height this) k) \<and>
             (is_finite (Size.width this) \<and> is_finite (Size.height this) \<and>
              is_finite (Size.width target) \<and> is_finite (Size.height target) \<longrightarrow>
              js_less_eq (Fin 0) k \<and>
              js_less_eq (Fin 0) (Size.width (scaleToFit this target)) \<and>
              js_less_eq (Fin 0) (Size.height (scaleToFit this target)))) \<and>
         scaleToFit (new_Size (Fin 4) (Fin 3)) (new_Size (Fin 8) (Fin 3)) =
           new_Size (Fin 4) (Fin 3)"
proof -
  have q: "js_less_eq (Fin 0) (js_divide (Fin a) (Fin b))" if "0 < a" "0 < b" for a b
    using that round64_nonneg [of "a / b"] by auto
  have t: "js_less_eq (Fin 0) (js_times (Fin a) k)" if "0 < a" "js_less_eq (Fin 0) k" for a k
  proof (cases k)
    case (Fin b)
    then have "0 \<le> a * b" using that by simp
    from round64_nonneg [OF this] show ?thesis using Fin by auto
  qed (use that in simp_all)
  have "let k = (if js_less (js_divide (Size.width target) (Size.height target))
                              (js_divide (Size.width this) (Size.height this))
                   then js_divide (Size.width target) (Size.width this)
                   else js_divide (Size.height target) (Size.height this))
          in scaleToFit this target =
               new_Size (js_times (Size.width this) k) (js_times (Size.height this) k) \<and>
             (is_finite (Size.width this) \<and> is_finite (Size.height this) \<and>
              is_finite (Size.width target) \<and> is_finite (Size.height target) \<longrightarrow>
              js_less_eq (Fin 0) k \<and>
              js_less_eq (Fin 0) (Size.width (scaleToFit this target)) \<and>
              js_less_eq (Fin 0) (Size.height (scaleToFit this target)))"
    using assms
    by (cases "Size.width this"; cases "Size.height this";
        cases "Size.width target"; cases "Size.height target")
      (simp_all add: scaleToFit_def aspectRatio_def Size_scale_uniform Let_def
        new_Size_def q t del: js_divide.simps js_times.simps)
  then show ?thesis using scaleToFit_4_3_8_3 by (rule conjI)
qed

theorem C7_witness:
  "scaleToFit (new_Size (Fin 4) (Fin 3)) (new_Size (Fin 2) (Fin 3)) =
     new_Size (Fin 2) (Fin (3 / 2)) \<and>
   scaleToFit (new_Size (Fin 4) (Fin 3)) (new_Size (Fin 8) (Fin 3)) = new_Size (Fin 4) (Fin 3)"
proof -
  let ?s = "new_Size (Fin 4) (Fin 3)" and ?t = "new_Size (Fin 2) (Fin 3)"
  have h: "js_less (Fin 0) (Size.width ?s)" "js_less (Fin 0) (Size.height ?s)"
    "js_less (Fin 0) (Size.width ?t)" "js_less (Fin 0) (Size.height ?t)"
    by (simp_all add: new_Size_def)
  from C7_scaleToFit [OF h] show ?thesis
    by (simp add: Let_def new_Size_def round64_4_3 [simplified] round64_2_3 [simplified]
        round64_1_2 [simplified] round64_3_2 [simplified] round64_numeral)
qed

section \<open>Box: the distance to a coordinate\<close>




section \<open>Coordinate: normalizing\<close>







section \<open>Rect: the difference of two rectangles, in double arithmetic\<close>

text \<open>On rectangles with integer fields of moderate size the source computes what exact arithmetic gives.\<close>

lemma intersection64_exact:
  assumes "integers_within (2 ^ 50) a" and "integers_within (2 ^ 50) b"
  shows "intersection64 (exact a) (exact b) = map_option exact (intersection a b)"
proof -
  define a_l where "a_l = Rect.left a" define a_t where "a_t = Rect.top a"
  define a_w where "a_w = Rect.width a" define a_h where "a_h = Rect.height a"
  define b_l where "b_l = Rect.left b" define b_t where "b_t = Rect.top b"
  define b_w where "b_w = Rect.width b" define b_h where "b_h = Rect.height b"
  note d = a_l_def a_t_def a_w_def a_h_def b_l_def b_t_def b_w_def b_h_def
  from assms have i: "a_l \<in> \<int>" "a_t \<in> \<int>" "a_w \<in> \<int>" "a_h \<in> \<int>" "b_l \<in> \<int>" "b_t \<in> \<int>" "b_w \<in> \<int>" "b_h \<in> \<int>"
    and lo: "- (2 ^ 50) \<le> a_l" "- (2 ^ 50) \<le> a_t" "- (2 ^ 50) \<le> a_w" "- (2 ^ 50) \<le> a_h"
      "- (2 ^ 50) \<le> b_l" "- (2 ^ 50) \<le> b_t" "- (2 ^ 50) \<le> b_w" "- (2 ^ 50) \<le> b_h"
    and hi: "a_l \<le> 2 ^ 50" "a_t \<le> 2 ^ 50" "a_w \<le> 2 ^ 50" "a_h \<le> 2 ^ 50"
      "b_l \<le> 2 ^ 50" "b_t \<le> 2 ^ 50" "b_w \<le> 2 ^ 50" "b_h \<le> 2 ^ 50"
    by (simp_all add: integers_within_def d)
  have s: "js_plus (Fin a_l) (Fin a_w) = Fin (a_l + a_w)" "js_plus (Fin b_l) (Fin b_w) = Fin (b_l + b_w)"
    "js_plus (Fin a_t) (Fin a_h) = Fin (a_t + a_h)" "js_plus (Fin b_t) (Fin b_h) = Fin (b_t + b_h)"
    using i lo hi by (intro js_plus_exact; simp)+
  have m: "js_minus (Fin (min (a_l + a_w) (b_l + b_w))) (Fin (max a_l b_l)) =
             Fin (min (a_l + a_w) (b_l + b_w) - max a_l b_l)"
    "js_minus (Fin (min (a_t + a_h) (b_t + b_h))) (Fin (max a_t b_t)) =
             Fin (min (a_t + a_h) (b_t + b_h) - max a_t b_t)"
    using i lo hi by (intro js_minus_exact; auto simp add: min_def max_def)+
  show ?thesis
    unfolding intersection64_def intersection_def exact_def new_Rect64_def new_Rect_def
    by (simp add: Let_def d [symmetric] s m del: js_plus.simps)
qed

lemma difference64_exact:
  assumes "integers_within (2 ^ 50) a" and "integers_within (2 ^ 50) b"
  shows "difference64 (exact a) (exact b) = map exact (difference a b)"
proof -
  define a_l where "a_l = Rect.left a" define a_t where "a_t = Rect.top a"
  define a_w where "a_w = Rect.width a" define a_h where "a_h = Rect.height a"
  define b_l where "b_l = Rect.left b" define b_t where "b_t = Rect.top b"
  define b_w where "b_w = Rect.width b" define b_h where "b_h = Rect.height b"
  note d = a_l_def a_t_def a_w_def a_h_def b_l_def b_t_def b_w_def b_h_def
  from assms have i: "a_l \<in> \<int>" "a_t \<in> \<int>" "a_w \<in> \<int>" "a_h \<in> \<int>" "b_l \<in> \<int>" "b_t \<in> \<int>" "b_w \<in> \<int>" "b_h \<in> \<int>"
    and lo: "- (2 ^ 50) \<le> a_l" "- (2 ^ 50) \<le> a_t" "- (2 ^ 50) \<le> a_w" "- (2 ^ 50) \<le> a_h"
      "- (2 ^ 50) \<le> b_l" "- (2 ^ 50) \<le> b_t" "- (2 ^ 50) \<le> b_w" "- (2 ^ 50) \<le> b_h"
    and hi: "a_l \<le> 2 ^ 50" "a_t \<le> 2 ^ 50" "a_w \<le> 2 ^ 50" "a_h \<le> 2 ^ 50"
      "b_l \<le> 2 ^ 50" "b_t \<le> 2 ^ 50" "b_w \<le> 2 ^ 50" "b_h \<le> 2 ^ 50"
    by (simp_all add: integers_within_def d)
  have s: "js_plus (Fin a_l) (Fin a_w) = Fin (a_l + a_w)" "js_plus (Fin b_l) (Fin b_w) = Fin (b_l + b_w)"
    "js_plus (Fin a_t) (Fin a_h) = Fin (a_t + a_h)" "js_plus (Fin b_t) (Fin b_h) = Fin (b_t + b_h)"
    using i lo hi by (intro js_plus_exact; simp)+
  have m: "js_minus (Fin b_t) (Fin a_t) = Fin (b_t - a_t)"
    "js_minus (Fin a_h) (Fin (b_t - a_t)) = Fin (a_h - (b_t - a_t))"
    "js_minus (Fin (a_t + a_h)) (Fin (b_t + b_h)) = Fin (a_t + a_h - (b_t + b_h))"
    "js_minus (Fin (b_t + b_h)) (Fin b_t) = Fin (b_t + b_h - b_t)"
    "js_minus (Fin (b_t + b_h)) (Fin a_t) = Fin (b_t + b_h - a_t)"
    "js_minus (Fin b_l) (Fin a_l) = Fin (b_l - a_l)"
    "js_minus (Fin (a_l + a_w)) (Fin (b_l + b_w)) = Fin (a_l + a_w - (b_l + b_w))"
    using i lo hi by (intro js_minus_exact; simp)+
  have x: "intersection64 (exact a) (exact b) = map_option exact (intersection a b)"
    using assms by (rule intersection64_exact)
  show ?thesis
  proof (cases "intersection a b")
    case None
    show ?thesis
      unfolding difference64_def difference_def x None option.map option.case
      by (simp add: clone64_def clone_def exact_def new_Rect64_def new_Rect_def)
  next
    case (Some j)
    show ?thesis
    proof (cases "Rect.height j = 0 \<or> Rect.width j = 0")
      case True
      then have t: "js_falsy (Rect64.height (exact j)) \<or> js_falsy (Rect64.width (exact j))"
        by (auto simp add: exact_def new_Rect64_def)
      show ?thesis
        unfolding difference64_def difference_def x Some option.map option.case
        using True t
        by (simp add: clone64_def clone_def exact_def new_Rect64_def new_Rect_def)
    next
      case False
      then have f: "\<not> (js_falsy (Rect64.height (exact j)) \<or> js_falsy (Rect64.width (exact j)))"
        by (simp add: exact_def new_Rect64_def)
      show ?thesis
        unfolding difference64_def difference_def x Some option.map option.case
        using False f
        by (simp add: Let_def exact_def new_Rect64_def new_Rect_def d [symmetric] s m
            del: js_plus.simps)
    qed
  qed
qed

lemma integers_within_mono:
  assumes "integers_within K r" and "K \<le> L"
  shows "integers_within L r"
  using assms by (auto simp add: integers_within_def)

lemma Ints_max: "x \<in> \<int> \<Longrightarrow> y \<in> \<int> \<Longrightarrow> max x y \<in> \<int>"
  by (simp add: max_def)

lemma Ints_min: "x \<in> \<int> \<Longrightarrow> y \<in> \<int> \<Longrightarrow> min x y \<in> \<int>"
  by (simp add: min_def)

lemma intersection_integers_within:
  assumes "integers_within K a" and "integers_within K b" and "intersection a b = Some i"
  shows "integers_within (4 * K) i"
  using assms(1,2) intersection_SomeD [OF assms(3)]
  by (auto simp add: integers_within_def Ints_max Ints_min max_def min_def)

lemma difference_integers_within:
  assumes "integers_within K a" and "integers_within K b" and "r \<in> set (difference a b)"
  shows "integers_within (4 * K) r"
proof (cases "intersection a b")
  case None
  then show ?thesis using assms
    by (auto simp add: difference_def clone_def new_Rect_def integers_within_def)
next
  case (Some i)
  show ?thesis
  proof (cases "Rect.height i = 0 \<or> Rect.width i = 0")
    case True
    then show ?thesis using assms Some
      by (auto simp add: difference_def clone_def new_Rect_def integers_within_def)
  next
    case False
    then have "r \<in> set (bands_top_bottom_left_right a b)"
      using assms(3) difference_bands [OF Some] by simp
    then show ?thesis using assms(1,2)
      by (auto simp add: bands_top_bottom_left_right_def Let_def new_Rect_def
          integers_within_def Ints_max Ints_min max_def min_def split: if_splits)
  qed
qed

lemma difference_length: "length (difference a b) \<le> 4"
  by (auto simp add: difference_def Let_def split: option.splits)

lemma intersects64_exact:
  assumes "integers_within (2 ^ 50) a" and "integers_within (2 ^ 50) b"
  shows "intersects64 (exact a) (exact b) = intersects a b"
  using assms
  by (simp add: intersects64_def intersects_def exact_def new_Rect64_def integers_within_def
      round64_exact)

lemma overlap64_exact:
  assumes "integers_within (2 ^ 50) r" and "integers_within (2 ^ 50) r'"
  shows "overlap64 (exact r) (exact r') = overlap r r'"
  unfolding overlap64_def overlap_def intersection64_exact [OF assms]
  by (simp add: exact_def new_Rect64_def split: option.splits)

lemma non_overlapping64_exact:
  assumes "\<forall>r \<in> set rs. integers_within (2 ^ 50) r"
  shows "non_overlapping64 (map exact rs) = non_overlapping rs"
  using assms by (induction rs) (simp_all add: overlap64_exact)

lemma exact_area_bounds:
  assumes "integers_within (2 ^ 22) r"
  shows "exact_area r \<in> \<int>" and "\<bar>exact_area r\<bar> \<le> 2 ^ 44"
proof -
  from assms have w: "\<bar>Rect.width r\<bar> \<le> 2 ^ 22" and h: "\<bar>Rect.height r\<bar> \<le> 2 ^ 22"
    and i: "Rect.width r \<in> \<int>" "Rect.height r \<in> \<int>"
    by (auto simp add: integers_within_def)
  show "exact_area r \<in> \<int>" using i by (simp add: exact_area_def)
  have "\<bar>Rect.width r\<bar> * \<bar>Rect.height r\<bar> \<le> 2 ^ 22 * 2 ^ 22"
    using w h by (intro mult_mono) simp_all
  then show "\<bar>exact_area r\<bar> \<le> 2 ^ 44" by (simp add: exact_area_def abs_mult)
qed

lemma area_exact:
  assumes "integers_within (2 ^ 22) r"
  shows "area (exact r) = Fin (exact_area r)"
proof -
  have "round64 (exact_area r) = Fin (exact_area r)"
    using exact_area_bounds [OF assms] by (intro round64_Ints) simp_all
  then show ?thesis by (simp add: area_def exact_def new_Rect64_def exact_area_def)
qed

lemma foldl_js_plus_exact:
  assumes "\<forall>x \<in> set xs. x \<in> \<int> \<and> \<bar>x\<bar> \<le> 2 ^ 44"
    and "acc \<in> \<int>" and "\<bar>acc\<bar> + real (length xs) * 2 ^ 44 \<le> 2 ^ 53"
  shows "foldl js_plus (Fin acc) (map Fin xs) = Fin (acc + sum_list xs)"
  using assms
proof (induction xs arbitrary: acc)
  case Nil
  then show ?case by simp
next
  case (Cons x xs)
  have x: "x \<in> \<int>" "\<bar>x\<bar> \<le> 2 ^ 44" using Cons.prems(1) by simp_all
  have b: "\<bar>acc + x\<bar> + real (length xs) * 2 ^ 44 \<le> 2 ^ 53"
    using Cons.prems(3) x(2) by (simp add: algebra_simps)
  have "0 \<le> real (length xs) * 2 ^ 44" by simp
  with b have "\<bar>acc + x\<bar> \<le> 2 ^ 53" by linarith
  then have "round64 (acc + x) = Fin (acc + x)"
    using Cons.prems(2) x(1) by (intro round64_Ints) simp_all
  then have "foldl js_plus (Fin acc) (map Fin (x # xs)) = foldl js_plus (Fin (acc + x)) (map Fin xs)"
    by simp
  also have "\<dots> = Fin (acc + x + sum_list xs)"
    using Cons.prems x b by (intro Cons.IH) simp_all
  finally show ?case by (simp add: add.assoc)
qed

lemma total_area_exact:
  assumes "\<forall>r \<in> set rs. integers_within (2 ^ 22) r" and "length rs \<le> 4"
  shows "total_area (map exact rs) = Fin (sum_list (map exact_area rs))"
proof -
  have "map area (map exact rs) = map Fin (map exact_area rs)"
    using assms(1) by (simp add: area_exact)
  then have "total_area (map exact rs) = foldl js_plus (Fin 0) (map Fin (map exact_area rs))"
    by (simp only: total_area_def)
  moreover have "foldl js_plus (Fin 0) (map Fin (map exact_area rs)) =
      Fin (0 + sum_list (map exact_area rs))"
  proof (rule foldl_js_plus_exact)
    show "\<forall>x \<in> set (map exact_area rs). x \<in> \<int> \<and> \<bar>x\<bar> \<le> 2 ^ 44"
      using assms(1) exact_area_bounds by auto
    have "real (length (map exact_area rs)) \<le> 4" using assms(2) by simp
    then have "real (length (map exact_area rs)) * 2 ^ 44 \<le> 4 * 2 ^ 44"
      by (intro mult_right_mono) simp_all
    then show "\<bar>0::real\<bar> + real (length (map exact_area rs)) * 2 ^ 44 \<le> 2 ^ 53" by simp
  qed simp
  ultimately show ?thesis by simp
qed

text \<open>Four roundings just above \<open>2^53\<close>, where the doubles are the even integers.\<close>

lemma round64_2p54_m1: "round64 (2 ^ 54 - 1) = Fin (2 ^ 54)"
  by (subst round64_eqI [where e = 53 and u = 2 and n = "2 ^ 53"])
    (simp_all add: round_half_even_def)

lemma round64_2p53_3: "round64 (2 ^ 53 + 3) = Fin (2 ^ 53 + 4)"
  by (subst round64_eqI [where e = 53 and u = 2 and n = "2 ^ 52 + 2"])
    (simp_all add: round_half_even_def)

lemma round64_2p53_2: "round64 (2 ^ 53 + 2) = Fin (2 ^ 53 + 2)"
  by (subst round64_eqI [where e = 53 and u = 2 and n = "2 ^ 52 + 1"])
    (simp_all add: round_half_even_def)

lemma round64_2p53_6: "round64 (2 ^ 53 + 6) = Fin (2 ^ 53 + 6)"
  by (subst round64_eqI [where e = 53 and u = 2 and n = "2 ^ 52 + 3"])
    (simp_all add: round_half_even_def)

lemma round64_2p54: "round64 (2 ^ 54) = Fin (2 ^ 54)"
  using round64_power_int [of 54] by simp

lemmas round64_at_2p53 =
  round64_2p54_m1 [simplified] round64_2p53_3 [simplified] round64_2p53_2 [simplified]
  round64_2p53_6 [simplified] round64_2p54 [simplified]

text \<open>
  C1. Claimed: whenever \<open>Rect.intersects(a,b)\<close> is true and the width and height of \<open>a\<close>
  are non-negative, the rectangles of \<open>Rect.difference(a,b)\<close> are pairwise non-overlapping
  and their total area plus \<open>Rect.intersection(a,b).area()\<close> is \<open>a.area()\<close>. The extents
  of the bands are rounded differences. For \<open>a = Rect(0, -1, 4, 2^54)\<close> and
  \<open>b = Rect(2, 2^53+2, 4, 4)\<close> the top band gets the height \<open>2^53+3\<close> rounded, which
  is \<open>2^53+4\<close>, and reaches two units below the top \<open>2^53+2\<close> of the left band:
  \<open>Rect.intersection\<close> of the two bands has width \<open>2\<close> and height \<open>2\<close>. And with a
  negative extent of \<open>b\<close> there need be no intersection to take the area of: for
  \<open>a = Rect(0,0,10,10)\<close> and \<open>b = Rect(5,5,-2,2)\<close> the test \<open>intersects\<close> is true and
  \<open>Rect.intersection(a,b)\<close> is \<open>null\<close>.
\<close>

theorem C1_counterexample:
  "is_double (Fin (2 ^ 54)) \<and> is_double (Fin (2 ^ 53 + 2)) \<and>
   intersects64 (new_Rect64 (Fin 0) (Fin (- 1)) (Fin 4) (Fin (2 ^ 54)))
                (new_Rect64 (Fin 2) (Fin (2 ^ 53 + 2)) (Fin 4) (Fin 4)) \<and>
   intersection64 (new_Rect64 (Fin 0) (Fin (- 1)) (Fin 4) (Fin (2 ^ 54)))
                  (new_Rect64 (Fin 2) (Fin (2 ^ 53 + 2)) (Fin 4) (Fin 4)) =
     Some (new_Rect64 (Fin 2) (Fin (2 ^ 53 + 2)) (Fin 2) (Fin 4)) \<and>
   difference64 (new_Rect64 (Fin 0) (Fin (- 1)) (Fin 4) (Fin (2 ^ 54)))
                (new_Rect64 (Fin 2) (Fin (2 ^ 53 + 2)) (Fin 4) (Fin 4)) =
     [new_Rect64 (Fin 0) (Fin (- 1)) (Fin 4) (Fin (2 ^ 53 + 4)),
      new_Rect64 (Fin 0) (Fin (2 ^ 53 + 6)) (Fin 4) (Fin (2 ^ 53 - 6)),
      new_Rect64 (Fin 0) (Fin (2 ^ 53 + 2)) (Fin 2) (Fin 4)] \<and>
   intersection64 (new_Rect64 (Fin 0) (Fin (- 1)) (Fin 4) (Fin (2 ^ 53 + 4)))
                  (new_Rect64 (Fin 0) (Fin (2 ^ 53 + 2)) (Fin 2) (Fin 4)) =
     Some (new_Rect64 (Fin 0) (Fin (2 ^ 53 + 2)) (Fin 2) (Fin 2)) \<and>
   \<not> non_overlapping64
       (difference64 (new_Rect64 (Fin 0) (Fin (- 1)) (Fin 4) (Fin (2 ^ 54)))
                     (new_Rect64 (Fin 2) (Fin (2 ^ 53 + 2)) (Fin 4) (Fin 4))) \<and>
   intersects64 (new_Rect64 (Fin 0) (Fin 0) (Fin 10) (Fin 10))
                (new_Rect64 (Fin 5) (Fin 5) (Fin (- 2)) (Fin 2)) \<and>
   intersection64 (new_Rect64 (Fin 0) (Fin 0) (Fin 10) (Fin 10))
                  (new_Rect64 (Fin 5) (Fin 5) (Fin (- 2)) (Fin 2)) = None"
proof -
  let ?a = "new_Rect64 (Fin 0) (Fin (- 1)) (Fin 4) (Fin (2 ^ 54))"
  let ?b = "new_Rect64 (Fin 2) (Fin (2 ^ 53 + 2)) (Fin 4) (Fin 4)"
  let ?T = "new_Rect64 (Fin 0) (Fin (- 1)) (Fin 4) (Fin (2 ^ 53 + 4))"
  let ?L = "new_Rect64 (Fin 0) (Fin (2 ^ 53 + 2)) (Fin 2) (Fin 4)"
  have d: "is_double (Fin (2 ^ 54))" "is_double (Fin (2 ^ 53 + 2))"
    by (simp_all add: round64_at_2p53)
  have p: "intersects64 ?a ?b"
    by (simp add: intersects64_def new_Rect64_def round64_at_2p53 round64_numeral)
  have i: "intersection64 ?a ?b = Some (new_Rect64 (Fin 2) (Fin (2 ^ 53 + 2)) (Fin 2) (Fin 4))"
    by (simp add: intersection64_def new_Rect64_def js_minus_def round64_at_2p53
        round64_numeral Let_def)
  have f: "difference64 ?a ?b =
     [?T, new_Rect64 (Fin 0) (Fin (2 ^ 53 + 6)) (Fin 4) (Fin (2 ^ 53 - 6)), ?L]"
    unfolding difference64_def i
    by (simp add: new_Rect64_def js_minus_def round64_at_2p53 round64_numeral Let_def)
  have o: "intersection64 ?T ?L = Some (new_Rect64 (Fin 0) (Fin (2 ^ 53 + 2)) (Fin 2) (Fin 2))"
    by (simp add: intersection64_def new_Rect64_def js_minus_def round64_at_2p53
        round64_numeral Let_def)
  have "overlap64 ?T ?L" unfolding overlap64_def o by (simp add: new_Rect64_def)
  then have n: "\<not> non_overlapping64 (difference64 ?a ?b)" unfolding f by simp
  have p': "intersects64 (new_Rect64 (Fin 0) (Fin 0) (Fin 10) (Fin 10))
                (new_Rect64 (Fin 5) (Fin 5) (Fin (- 2)) (Fin 2))"
    by (simp add: intersects64_def new_Rect64_def round64_numeral)
  have i': "intersection64 (new_Rect64 (Fin 0) (Fin 0) (Fin 10) (Fin 10))
                  (new_Rect64 (Fin 5) (Fin 5) (Fin (- 2)) (Fin 2)) = None"
    by (simp add: intersection64_def new_Rect64_def js_minus_def round64_numeral Let_def)
  from d p i f o n p' i' show ?thesis by blast
qed

text \<open>
  C1, amended. For all rectangles \<open>a\<close> and \<open>b\<close> whose fields are integers of magnitude
  at most \<open>2^20\<close>, with non-negative widths and heights, such that
  \<open>Rect.intersects(a,b)\<close> is true: \<open>Rect.intersection(a,b)\<close> is a rectangle \<open>i\<close>; the
  rectangles of \<open>Rect.difference(a,b)\<close> are pairwise non-overlapping; their total area
  plus the area of \<open>i\<close> is the area of \<open>a\<close>; and unless \<open>i\<close> has zero width or height
  they are the bands in the order top, bottom, left, right, the left and right bands on the
  shrunk vertical extent.
\<close>

theorem C1_difference_partitions:
  assumes "integers_within (2 ^ 20) a" and "integers_within (2 ^ 20) b"
    and "intersects64 (exact a) (exact b)"
    and "js_less_eq (Fin 0) (Rect64.width (exact a))"
    and "js_less_eq (Fin 0) (Rect64.height (exact a))"
    and "js_less_eq (Fin 0) (Rect64.width (exact b))"
    and "js_less_eq (Fin 0) (Rect64.height (exact b))"
  shows "\<exists>i. intersection64 (exact a) (exact b) = Some i \<and>
           non_overlapping64 (difference64 (exact a) (exact b)) \<and>
           js_plus (total_area (difference64 (exact a) (exact b))) (area i) = area (exact a) \<and>
           difference64 (exact a) (exact b) =
             (if js_falsy (Rect64.height i) \<or> js_falsy (Rect64.width i) then [clone64 (exact a)]
              else map exact (bands_top_bottom_left_right a b))"
proof -
  have a50: "integers_within (2 ^ 50) a" and b50: "integers_within (2 ^ 50) b"
    using assms(1,2) by (auto intro: integers_within_mono)
  have p: "intersects a b" using assms(3) by (simp add: intersects64_exact [OF a50 b50])
  have n: "0 \<le> Rect.width a" "0 \<le> Rect.height a" "0 \<le> Rect.width b" "0 \<le> Rect.height b"
    using assms(4-7) by (simp_all add: exact_def new_Rect64_def)
  from difference_partitions_exact [OF p n] obtain i where
    i: "intersection a b = Some i" and
    no: "non_overlapping (difference a b)" and
    ar: "sum_list (map exact_area (difference a b)) + exact_area i = exact_area a" and
    st: "difference a b =
           (if Rect.height i = 0 \<or> Rect.width i = 0 then [clone a]
            else bands_top_bottom_left_right a b)"
    by blast
  have x: "intersection64 (exact a) (exact b) = Some (exact i)"
    by (simp add: intersection64_exact [OF a50 b50] i)
  have d: "difference64 (exact a) (exact b) = map exact (difference a b)"
    using a50 b50 by (rule difference64_exact)
  have w: "\<forall>r \<in> set (difference a b). integers_within (2 ^ 22) r"
    using difference_integers_within [OF assms(1,2)] by simp
  then have w50: "\<forall>r \<in> set (difference a b). integers_within (2 ^ 50) r"
    by (auto intro: integers_within_mono)
  have i22: "integers_within (2 ^ 22) i"
    using intersection_integers_within [OF assms(1,2) i] by simp
  have a22: "integers_within (2 ^ 22) a"
    using assms(1) by (auto intro: integers_within_mono)
  have c1: "non_overlapping64 (difference64 (exact a) (exact b))"
    unfolding d using no by (simp add: non_overlapping64_exact [OF w50])
  have "round64 (exact_area a) = Fin (exact_area a)"
    using exact_area_bounds [OF a22] by (intro round64_Ints) simp_all
  then have c2: "js_plus (total_area (difference64 (exact a) (exact b))) (area (exact i)) =
      area (exact a)"
    unfolding d total_area_exact [OF w difference_length] area_exact [OF i22] area_exact [OF a22]
    by (simp add: ar)
  have c3: "difference64 (exact a) (exact b) =
      (if js_falsy (Rect64.height (exact i)) \<or> js_falsy (Rect64.width (exact i))
       then [clone64 (exact a)] else map exact (bands_top_bottom_left_right a b))"
    unfolding d st
    by (simp add: exact_def new_Rect64_def clone_def clone64_def new_Rect_def)
  from x c1 c2 c3 show ?thesis by blast
qed

theorem C1_witness:
  "intersection64 (new_Rect64 (Fin 0) (Fin 0) (Fin 10) (Fin 10))
                  (new_Rect64 (Fin 5) (Fin 5) (Fin 10) (Fin 10)) =
     Some (new_Rect64 (Fin 5) (Fin 5) (Fin 5) (Fin 5)) \<and>
   difference64 (new_Rect64 (Fin 0) (Fin 0) (Fin 10) (Fin 10))
                (new_Rect64 (Fin 5) (Fin 5) (Fin 10) (Fin 10)) =
     [new_Rect64 (Fin 0) (Fin 0) (Fin 10) (Fin 5), new_Rect64 (Fin 0) (Fin 5) (Fin 5) (Fin 5)] \<and>
   non_overlapping64
     [new_Rect64 (Fin 0) (Fin 0) (Fin 10) (Fin 5), new_Rect64 (Fin 0) (Fin 5) (Fin 5) (Fin 5)] \<and>
   js_plus
     (total_area
       [new_Rect64 (Fin 0) (Fin 0) (Fin 10) (Fin 5), new_Rect64 (Fin 0) (Fin 5) (Fin 5) (Fin 5)])
     (area (new_Rect64 (Fin 5) (Fin 5) (Fin 5) (Fin 5))) =
     area (new_Rect64 (Fin 0) (Fin 0) (Fin 10) (Fin 10))"
proof -
  let ?a = "new_Rect 0 0 10 10" and ?b = "new_Rect 5 5 10 10"
  have e: "exact ?a = new_Rect64 (Fin 0) (Fin 0) (Fin 10) (Fin 10)"
    "exact ?b = new_Rect64 (Fin 5) (Fin 5) (Fin 10) (Fin 10)"
    by (simp_all add: exact_def new_Rect_def)
  have h: "integers_within (2 ^ 20) ?a" "integers_within (2 ^ 20) ?b"
    by (simp_all add: integers_within_def new_Rect_def)
  have p: "intersects64 (exact ?a) (exact ?b)"
    by (simp add: e intersects64_def new_Rect64_def round64_numeral)
  have g: "js_less_eq (Fin 0) (Rect64.width (exact ?a))" "js_less_eq (Fin 0) (Rect64.height (exact ?a))"
    "js_less_eq (Fin 0) (Rect64.width (exact ?b))" "js_less_eq (Fin 0) (Rect64.height (exact ?b))"
    by (simp_all add: e new_Rect64_def)
  have i: "intersection64 (exact ?a) (exact ?b) = Some (new_Rect64 (Fin 5) (Fin 5) (Fin 5) (Fin 5))"
    by (simp add: e intersection64_def new_Rect64_def js_minus_def round64_numeral Let_def)
  have f: "difference64 (exact ?a) (exact ?b) =
    [new_Rect64 (Fin 0) (Fin 0) (Fin 10) (Fin 5), new_Rect64 (Fin 0) (Fin 5) (Fin 5) (Fin 5)]"
    unfolding difference64_def i
    by (simp add: e new_Rect64_def js_minus_def round64_numeral Let_def)
  from C1_difference_partitions [OF h p g] obtain j where
    j: "intersection64 (exact ?a) (exact ?b) = Some j" and
    n: "non_overlapping64 (difference64 (exact ?a) (exact ?b))" and
    s: "js_plus (total_area (difference64 (exact ?a) (exact ?b))) (area j) = area (exact ?a)"
    by blast
  from i j have "j = new_Rect64 (Fin 5) (Fin 5) (Fin 5) (Fin 5)" by simp
  with n s i f show ?thesis unfolding f e by simp
qed

end
